theory Spec2Isabelle
  imports Main
begin

section \<open>Data model of the auth service (05.auth-authorization-system)\<close>

text \<open>
  Timestamps are milliseconds since the epoch, as JavaScript's \<open>Date\<close> counts them;
  \<open>CURRENT_TIMESTAMP\<close> and \<open>new Date()\<close> are the explicit argument \<open>now\<close> of every
  operation. A nullable column is an \<open>option\<close>. The tables are lists of rows in
  insertion order, so that \<open>result.rows[0]\<close> is the head of the filtered list.
\<close>

type_synonym timestamp = int

definition minutes :: "int \<Rightarrow> int" where
  "minutes n = n * 60 * 1000"

definition hours :: "int \<Rightarrow> int" where
  "hours n = n * 60 * 60 * 1000"

text \<open>Every \<open>throw\<close> of the modelled code, and every rejection of the stores, is a value.\<close>

datatype error =
    InvalidEmailOrPassword     \<comment> \<open>'Invalid email or password'\<close>
  | AccountDeactivated         \<comment> \<open>'Account is deactivated'\<close>
  | AccountLocked              \<comment> \<open>'Account is temporarily locked due to failed login attempts'\<close>
  | UserNotFound               \<comment> \<open>'User not found'\<close>
  | IllegalArguments           \<comment> \<open>bcryptjs on a missing hash\<close>
  | InvalidResetToken          \<comment> \<open>'Invalid or expired password reset token'\<close>
  | CurrentPasswordIncorrect   \<comment> \<open>'Current password is incorrect'\<close>
  | TypeError                  \<comment> \<open>a call or a property read on \<open>undefined\<close> or \<open>null\<close>\<close>
  | CannotDeleteSystemRole     \<comment> \<open>'Cannot delete system role'\<close>
  | CannotDeleteAssignedRole   \<comment> \<open>'Cannot delete role that is assigned to users'\<close>
  | CannotModifySystemRole     \<comment> \<open>403 'Cannot modify system role'\<close>
  | RoleNotFound               \<comment> \<open>404 'Role not found'\<close>
  | RoleNameExists             \<comment> \<open>409 'Role name already exists'\<close>
  | UniqueViolation            \<comment> \<open>PostgreSQL 23505\<close>
  | ForeignKeyViolation        \<comment> \<open>PostgreSQL 23503\<close>
  | RedisError                 \<comment> \<open>a rejected cache command\<close>

text \<open>Rows of \<open>users\<close> (the columns the modelled operations read or write).\<close>

record user =
  u_id :: nat
  email :: string
  password_hash :: "string option"
  password_reset_token :: "string option"
  password_reset_expires :: "timestamp option"
  last_password_change :: "timestamp option"
  failed_login_attempts :: int
  account_locked_until :: "timestamp option"
  last_login :: "timestamp option"
  u_is_active :: bool
  u_updated_at :: timestamp

record role =
  r_id :: nat
  r_name :: string
  r_description :: string
  is_system_role :: bool
  is_default :: bool
  parent_role_id :: "nat option"
  level :: int
  r_updated_by :: "nat option"
  r_updated_at :: timestamp

record permission =
  p_id :: nat
  p_name :: string
  is_system_permission :: bool

record user_role =
  ur_user_id :: nat
  ur_role_id :: nat
  assigned_at :: timestamp
  assigned_by :: "nat option"
  ur_expires_at :: "timestamp option"
  ur_is_active :: bool

record role_permission =
  rp_role_id :: nat
  rp_permission_id :: nat
  granted :: bool

record session =
  s_id :: nat
  s_user_id :: nat
  session_token :: string
  refresh_token :: string
  ip_address :: string
  user_agent :: string
  s_created_at :: timestamp
  last_accessed :: timestamp
  s_expires_at :: timestamp
  s_is_active :: bool
  is_remembered :: bool
  force_logout :: bool

text \<open>
  What \<open>JSON.stringify\<close> puts into the cache: the compact object of \<open>createSession\<close>
  (\<open>id, user_id, is_active, expires_at\<close>) or a whole row (\<open>findSessionByToken\<close>).
  The same objects are what \<open>findSessionByToken\<close> returns.
\<close>

datatype session_json =
    Compact nat nat bool timestamp
  | Row session

fun json_expires_at :: "session_json \<Rightarrow> timestamp" where
  "json_expires_at (Compact i u a e) = e"
| "json_expires_at (Row s) = s_expires_at s"

fun json_is_active :: "session_json \<Rightarrow> bool" where
  "json_is_active (Compact i u a e) = a"
| "json_is_active (Row s) = s_is_active s"

fun json_id :: "session_json \<Rightarrow> nat" where
  "json_id (Compact i u a e) = i"
| "json_id (Row s) = s_id s"

text \<open>\<open>session.force_logout\<close> as JavaScript reads it: \<open>undefined\<close> (falsy) on the compact object.\<close>

fun json_force_logout :: "session_json \<Rightarrow> bool" where
  "json_force_logout (Compact i u a e) = False"
| "json_force_logout (Row s) = force_logout s"

text \<open>
  The Redis handle of \<open>config/redis.js\<close>: \<open>null\<close> when no configuration is given
  (\<open>None\<close> below). A command on a connection that is down rejects; a key lives until
  its deadline (\<open>SETEX\<close>).
\<close>

record redis_client =
  up :: bool
  kv :: "string \<rightharpoonup> (session_json \<times> timestamp)"

record audit_event =
  a_user_id :: "nat option"
  event_type :: string
  success :: bool

record state =
  users :: "user list"
  roles :: "role list"
  permissions :: "permission list"
  user_roles :: "user_role list"
  role_permissions :: "role_permission list"
  user_sessions :: "session list"
  user_sessions_seq :: nat
  audit_logs :: "audit_event list"
  redis :: "redis_client option"
  bcrypt_compares :: nat

text \<open>
  \<open>auditService.logEvent\<close> inserts a row and never throws: an \<open>INSERT\<close> that the
  store refuses (\<open>user_id\<close> references \<open>users\<close>) is caught and only logged to the
  console.
\<close>

definition logEvent :: "nat option \<Rightarrow> string \<Rightarrow> bool \<Rightarrow> state \<Rightarrow> state" where
  "logEvent uid ev ok st =
     (if (case uid of None \<Rightarrow> False | Some i \<Rightarrow> i \<notin> u_id ` set (users st))
      then st
      else st\<lparr>audit_logs := audit_logs st @
                [\<lparr>a_user_id = uid, event_type = ev, success = ok\<rparr>]\<rparr>)"

section \<open>Credential store: \<open>models/User.js\<close> and the triggers of the schema\<close>

text \<open>
  \<open>check_account_lockout()\<close>: three consecutive \<open>IF\<close>s on the new row, each
  overwriting \<open>account_locked_until\<close>.
\<close>

definition check_account_lockout :: "timestamp \<Rightarrow> user \<Rightarrow> user" where
  "check_account_lockout now new =
     (let n1 = (if failed_login_attempts new \<ge> 5
                then new\<lparr>account_locked_until := Some (now + minutes 30)\<rparr> else new);
          n2 = (if failed_login_attempts n1 \<ge> 10
                then n1\<lparr>account_locked_until := Some (now + hours 1)\<rparr> else n1);
          n3 = (if failed_login_attempts n2 \<ge> 15
                then n2\<lparr>account_locked_until := Some (now + hours 24)\<rparr> else n2)
      in n3)"

definition update_updated_at_column :: "timestamp \<Rightarrow> user \<Rightarrow> user" where
  "update_updated_at_column now new = new\<lparr>u_updated_at := now\<rparr>"

text \<open>
  \<open>UPDATE users SET ... WHERE id = $1\<close>: both \<open>BEFORE UPDATE ... FOR EACH ROW\<close> triggers
  run on every updated row, in the order of their names
  (\<open>check_user_account_lockout\<close>, then \<open>update_users_updated_at\<close>).
\<close>

definition update_users :: "timestamp \<Rightarrow> nat \<Rightarrow> (user \<Rightarrow> user) \<Rightarrow> user list \<Rightarrow> user list" where
  "update_users now i f us =
     map (\<lambda>u. if u_id u = i
              then update_updated_at_column now (check_account_lockout now (f u))
              else u) us"

text \<open>The columns that \<open>findByEmail\<close> and \<open>findById\<close> leave out are \<open>undefined\<close> on the object.\<close>

definition public_columns :: "user \<Rightarrow> user" where
  "public_columns u = u\<lparr>password_hash := None, password_reset_token := None,
     password_reset_expires := None, last_password_change := None\<rparr>"

definition findByEmail :: "string \<Rightarrow> bool \<Rightarrow> state \<Rightarrow> user option" where
  "findByEmail e includePasswordHash st =
     (case filter (\<lambda>u. email u = e) (users st) of
        [] \<Rightarrow> None
      | u # _ \<Rightarrow> Some (if includePasswordHash then u else public_columns u))"

definition findById :: "nat \<Rightarrow> state \<Rightarrow> user option" where
  "findById i st =
     (case filter (\<lambda>u. u_id u = i) (users st) of
        [] \<Rightarrow> None
      | u # _ \<Rightarrow> Some (public_columns u))"

definition isAccountLocked :: "timestamp \<Rightarrow> user \<Rightarrow> bool" where
  "isAccountLocked now this =
     (case account_locked_until this of None \<Rightarrow> False | Some t \<Rightarrow> now < t)"

text \<open>
  The methods of a \<open>User\<close> object take the object (\<open>this\<close>) and the state and return
  the result, the object and the state, so that what was written before a \<open>throw\<close>
  stays written.
\<close>

definition incrementFailedLoginAttempts :: "timestamp \<Rightarrow> user \<Rightarrow> state \<Rightarrow> user \<times> state" where
  "incrementFailedLoginAttempts now this st =
     (let us = update_users now (u_id this)
                 (\<lambda>u. u\<lparr>failed_login_attempts := failed_login_attempts u + 1\<rparr>) (users st);
          st' = st\<lparr>users := us\<rparr>
      in case filter (\<lambda>u. u_id u = u_id this) us of
           [] \<Rightarrow> (this, st')
         | r # _ \<Rightarrow> (this\<lparr>failed_login_attempts := failed_login_attempts r,
                          account_locked_until := account_locked_until r\<rparr>, st'))"

definition resetFailedLoginAttempts :: "timestamp \<Rightarrow> user \<Rightarrow> state \<Rightarrow> user \<times> state" where
  "resetFailedLoginAttempts now this st =
     (let us = update_users now (u_id this)
                 (\<lambda>u. u\<lparr>failed_login_attempts := 0, account_locked_until := None,
                        last_login := Some now\<rparr>) (users st)
      in (this\<lparr>failed_login_attempts := 0, account_locked_until := None,
               last_login := Some now\<rparr>, st\<lparr>users := us\<rparr>))"

text \<open>
  \<open>verifyPassword\<close>; \<open>cmp\<close> is \<open>bcrypt.compare\<close>, and the state counts its calls.
\<close>

definition verifyPassword ::
  "(string \<Rightarrow> string \<Rightarrow> bool) \<Rightarrow> timestamp \<Rightarrow> string \<Rightarrow> user \<Rightarrow> state
     \<Rightarrow> (error + bool) \<times> user \<times> state" where
  "verifyPassword cmp now plainPassword this st =
     (if isAccountLocked now this then (Inl AccountLocked, this, st)
      else case findByEmail (email this) True st of
             None \<Rightarrow> (Inl UserNotFound, this, st)
           | Some userWithPassword \<Rightarrow>
               (case password_hash userWithPassword of
                  None \<Rightarrow> (Inl IllegalArguments, this, st)
                | Some h \<Rightarrow>
                    (let st1 = st\<lparr>bcrypt_compares := bcrypt_compares st + 1\<rparr>
                     in if cmp plainPassword h
                        then (case resetFailedLoginAttempts now this st1 of
                                (this', st2) \<Rightarrow> (Inr True, this', st2))
                        else (case incrementFailedLoginAttempts now this st1 of
                                (this', st2) \<Rightarrow> (Inr False, this', st2)))))"

text \<open>
  The credential check that opens \<open>AuthService.login\<close> (up to the two-factor step):
  the user is loaded afresh from the store by email, an inactive account is refused,
  and a wrong password is logged and reported as \<open>'Invalid email or password'\<close>.
\<close>

definition login_credentials ::
  "(string \<Rightarrow> string \<Rightarrow> bool) \<Rightarrow> timestamp \<Rightarrow> string \<Rightarrow> string \<Rightarrow> state
     \<Rightarrow> (error + user) \<times> state" where
  "login_credentials cmp now e password st =
     (case findByEmail e False st of
        None \<Rightarrow> (Inl InvalidEmailOrPassword, st)
      | Some user \<Rightarrow>
          if \<not> u_is_active user then (Inl AccountDeactivated, st)
          else (case verifyPassword cmp now password user st of
                  (Inl err, _, st1) \<Rightarrow> (Inl err, st1)
                | (Inr isValidPassword, user', st1) \<Rightarrow>
                    if \<not> isValidPassword
                    then (Inl InvalidEmailOrPassword,
                          logEvent (Some (u_id user)) ''login_failed'' False st1)
                    else (Inr user', st1)))"

text \<open>Successive login attempts, each with its own time and password.\<close>

fun login_attempts ::
  "(string \<Rightarrow> string \<Rightarrow> bool) \<Rightarrow> string \<Rightarrow> (timestamp \<times> string) list \<Rightarrow> state \<Rightarrow> state" where
  "login_attempts cmp e [] st = st"
| "login_attempts cmp e ((t, pw) # rest) st =
     login_attempts cmp e rest (snd (login_credentials cmp t e pw st))"

section \<open>Session ledger and cache: \<open>services/tokenService.js\<close>\<close>

definition sessionKey :: "string \<Rightarrow> string" where
  "sessionKey token = ''session:'' @ token"

definition redis_get :: "timestamp \<Rightarrow> string \<Rightarrow> redis_client \<Rightarrow> error + session_json option" where
  "redis_get now k rc =
     (if up rc
      then Inr (case kv rc k of
                  None \<Rightarrow> None
                | Some (v, deadline) \<Rightarrow> if now < deadline then Some v else None)
      else Inl RedisError)"

text \<open>
  \<open>SETEX key seconds value\<close>; the server answers a time to live that is not positive
  with an error ('invalid expire time'), which rejects the promise like any other.
\<close>

definition redis_setex ::
  "timestamp \<Rightarrow> string \<Rightarrow> int \<Rightarrow> session_json \<Rightarrow> redis_client \<Rightarrow> error + redis_client" where
  "redis_setex now k seconds v rc =
     (if up rc \<and> seconds > 0
      then Inr (rc\<lparr>kv := (kv rc)(k \<mapsto> (v, now + seconds * 1000))\<rparr>)
      else Inl RedisError)"

definition redis_del :: "string \<Rightarrow> redis_client \<Rightarrow> error + redis_client" where
  "redis_del k rc =
     (if up rc then Inr (rc\<lparr>kv := (kv rc)(k := None)\<rparr>) else Inl RedisError)"

text \<open>
  \<open>Promise.all(rows.map(row => redis.del(...)))\<close>: every command is issued; the
  promise rejects when one of them does.
\<close>

fun redis_del_all :: "string list \<Rightarrow> redis_client \<Rightarrow> error + redis_client" where
  "redis_del_all [] rc = Inr rc"
| "redis_del_all (k # ks) rc =
     (case redis_del k rc of
        Inl e \<Rightarrow> Inl e
      | Inr rc' \<Rightarrow> redis_del_all ks rc')"

record session_data =
  sd_user_id :: nat
  access_token :: string
  sd_refresh_token :: string
  sd_ip_address :: string
  sd_user_agent :: string
  sd_is_remembered :: bool

text \<open>
  \<open>createSession\<close>; \<open>digest\<close> is the SHA-256 digest of the refresh token. The \<open>INSERT\<close> is
  refused by the constraints of \<open>user_sessions\<close> (\<open>session_token\<close> and \<open>refresh_token\<close>
  unique, reported first; \<open>user_id\<close> references \<open>users\<close>, checked at the end of the
  statement); the sequence of the \<open>SERIAL\<close> id advances either way. The \<open>catch\<close> logs and rethrows, so an error of the cache write, which
  comes after the \<open>INSERT\<close>, is the result of the call.
\<close>

definition createSession ::
  "(string \<Rightarrow> string) \<Rightarrow> timestamp \<Rightarrow> session_data \<Rightarrow> state \<Rightarrow> (error + session) \<times> state" where
  "createSession digest now sessionData st =
     (let expirationHours = (if sd_is_remembered sessionData then 24 * 30 else 24);
          expiresAt = now + expirationHours * 60 * 60 * 1000;
          refreshTokenHash = digest (sd_refresh_token sessionData);
          row = \<lparr>s_id = user_sessions_seq st + 1,
                 s_user_id = sd_user_id sessionData,
                 session_token = access_token sessionData,
                 refresh_token = refreshTokenHash,
                 ip_address = sd_ip_address sessionData,
                 user_agent = sd_user_agent sessionData,
                 s_created_at = now,
                 last_accessed = now,
                 s_expires_at = expiresAt,
                 s_is_active = True,
                 is_remembered = sd_is_remembered sessionData,
                 force_logout = False\<rparr>;
          st0 = st\<lparr>user_sessions_seq := user_sessions_seq st + 1\<rparr>
      in if access_token sessionData \<in> session_token ` set (user_sessions st)
            \<or> refreshTokenHash \<in> refresh_token ` set (user_sessions st)
         then (Inl UniqueViolation, st0)
         else if sd_user_id sessionData \<notin> u_id ` set (users st)
         then (Inl ForeignKeyViolation, st0)
         else
           (let st1 = st0\<lparr>user_sessions := user_sessions st @ [row]\<rparr>
            in case redis st1 of
                 None \<Rightarrow> (Inr row, st1)
               | Some rc \<Rightarrow>
                   (case redis_setex now (sessionKey (access_token sessionData))
                           (expirationHours * 3600)
                           (Compact (s_id row) (s_user_id row) True (s_expires_at row)) rc of
                      Inl e \<Rightarrow> (Inl e, st1)
                    | Inr rc' \<Rightarrow> (Inr row, st1\<lparr>redis := Some rc'\<rparr>))))"

text \<open>
  \<open>findSessionByToken\<close>: the cache first, where only \<open>expires_at\<close> and \<open>is_active\<close> of
  the cached object are looked at; then the query on the ledger.
\<close>

definition ledger_lookup :: "timestamp \<Rightarrow> string \<Rightarrow> state \<Rightarrow> session list" where
  "ledger_lookup now token st =
     filter (\<lambda>s. session_token s = token \<and> s_is_active s \<and> s_expires_at s > now
                  \<and> \<not> force_logout s) (user_sessions st)"

definition fall_back_to_database ::
  "timestamp \<Rightarrow> string \<Rightarrow> state \<Rightarrow> (error + session_json option) \<times> state" where
  "fall_back_to_database now token st =
     (case ledger_lookup now token st of
        [] \<Rightarrow> (Inr None, st)
      | session # _ \<Rightarrow>
          (case redis st of
             None \<Rightarrow> (Inr (Some (Row session)), st)
           | Some rc \<Rightarrow>
               (let expirationSeconds = (s_expires_at session - now) div 1000
                in case redis_setex now (sessionKey token) expirationSeconds (Row session) rc of
                     Inl e \<Rightarrow> (Inl e, st)
                   | Inr rc' \<Rightarrow> (Inr (Some (Row session)), st\<lparr>redis := Some rc'\<rparr>))))"

definition findSessionByToken ::
  "timestamp \<Rightarrow> string \<Rightarrow> state \<Rightarrow> (error + session_json option) \<times> state" where
  "findSessionByToken now token st =
     (case redis st of
        None \<Rightarrow> fall_back_to_database now token st
      | Some rc \<Rightarrow>
          (case redis_get now (sessionKey token) rc of
             Inl e \<Rightarrow> (Inl e, st)
           | Inr None \<Rightarrow> fall_back_to_database now token st
           | Inr (Some session) \<Rightarrow>
               if json_expires_at session > now \<and> json_is_active session
               then (Inr (Some session), st)
               else fall_back_to_database now token st))"

text \<open>
  The session check of the middleware \<open>authenticateToken\<close>
  (\<open>!session || !session.is_active || session.force_logout\<close> answers 401).
\<close>

definition session_accepted :: "timestamp \<Rightarrow> string \<Rightarrow> state \<Rightarrow> bool" where
  "session_accepted now token st =
     (case fst (findSessionByToken now token st) of
        Inr (Some session) \<Rightarrow> json_is_active session \<and> \<not> json_force_logout session
      | _ \<Rightarrow> False)"

definition invalidateSession :: "nat \<Rightarrow> state \<Rightarrow> (error + unit) \<times> state" where
  "invalidateSession sessionId st =
     (let sessionResult = filter (\<lambda>s. s_id s = sessionId) (user_sessions st);
          st1 = st\<lparr>user_sessions :=
                  map (\<lambda>s. if s_id s = sessionId then s\<lparr>s_is_active := False\<rparr> else s)
                      (user_sessions st)\<rparr>
      in case (redis st1, sessionResult) of
           (Some rc, row # _) \<Rightarrow>
             (case redis_del (sessionKey (session_token row)) rc of
                Inl e \<Rightarrow> (Inl e, st1)
              | Inr rc' \<Rightarrow> (Inr (), st1\<lparr>redis := Some rc'\<rparr>))
         | _ \<Rightarrow> (Inr (), st1))"

definition invalidateAllUserSessions :: "nat \<Rightarrow> state \<Rightarrow> (error + unit) \<times> state" where
  "invalidateAllUserSessions userId st =
     (let sessionsResult = filter (\<lambda>s. s_user_id s = userId \<and> s_is_active s) (user_sessions st);
          st1 = st\<lparr>user_sessions :=
                  map (\<lambda>s. if s_user_id s = userId then s\<lparr>s_is_active := False\<rparr> else s)
                      (user_sessions st)\<rparr>
      in case redis st1 of
           None \<Rightarrow> (Inr (), st1)
         | Some rc \<Rightarrow>
             (case redis_del_all (map (\<lambda>row. sessionKey (session_token row)) sessionsResult) rc of
                Inl e \<Rightarrow> (Inl e, st1)
              | Inr rc' \<Rightarrow> (Inr (), st1\<lparr>redis := Some rc'\<rparr>)))"

text \<open>\<open>id != $2\<close> is not true of any row when \<open>$2\<close> is \<open>NULL\<close>.\<close>

definition invalidateAllUserSessionsExcept :: "nat \<Rightarrow> nat option \<Rightarrow> state \<Rightarrow> (error + unit) \<times> state" where
  "invalidateAllUserSessionsExcept userId exceptSessionId st =
     (let differs = (\<lambda>s. case exceptSessionId of None \<Rightarrow> False | Some i \<Rightarrow> s_id s \<noteq> i);
          sessionsResult = filter (\<lambda>s. s_user_id s = userId \<and> s_is_active s \<and> differs s)
                             (user_sessions st);
          st1 = st\<lparr>user_sessions :=
                  map (\<lambda>s. if s_user_id s = userId \<and> differs s then s\<lparr>s_is_active := False\<rparr> else s)
                      (user_sessions st)\<rparr>
      in case redis st1 of
           None \<Rightarrow> (Inr (), st1)
         | Some rc \<Rightarrow>
             (case redis_del_all (map (\<lambda>row. sessionKey (session_token row)) sessionsResult) rc of
                Inl e \<Rightarrow> (Inl e, st1)
              | Inr rc' \<Rightarrow> (Inr (), st1\<lparr>redis := Some rc'\<rparr>)))"

section \<open>Password reset and change: \<open>models/User.js\<close>, \<open>services/authService.js\<close>\<close>




text \<open>
  \<open>tokenService.findSessionByUserId\<close>: \<open>TokenService\<close> defines no method of this name
  (nor does any other file assign one), so the property is \<open>undefined\<close> and the call
  throws a \<open>TypeError\<close>, whatever the arguments.
\<close>

definition findSessionByUserId :: "nat \<Rightarrow> state \<Rightarrow> error + session_json option" where
  "findSessionByUserId userId st = Inl TypeError"

text \<open>\<open>AuthService.changePassword\<close>; its \<open>catch\<close> logs the failure and rethrows.\<close>

definition changePassword ::
  "(string \<Rightarrow> string \<Rightarrow> bool) \<Rightarrow> (string \<Rightarrow> string) \<Rightarrow> timestamp \<Rightarrow> nat \<Rightarrow> string \<Rightarrow> string
     \<Rightarrow> state \<Rightarrow> (error + unit) \<times> state" where
  "changePassword cmp bhash now userId currentPassword newPassword st =
     (let failed = (\<lambda>e s. (Inl e, logEvent (Some userId) ''password_change_failed'' False s))
      in case findById userId st of
           None \<Rightarrow> failed UserNotFound st
         | Some user \<Rightarrow>
             (case findByEmail (email user) True st of
                None \<Rightarrow> failed TypeError st
              | Some userWithPassword \<Rightarrow>
                  (case password_hash userWithPassword of
                     None \<Rightarrow> failed IllegalArguments st
                   | Some h \<Rightarrow>
                       (let st1 = st\<lparr>bcrypt_compares := bcrypt_compares st + 1\<rparr>
                        in if \<not> cmp currentPassword h then failed CurrentPasswordIncorrect st1
                           else
                             (let newPasswordHash = bhash newPassword;
                                  st2 = st1\<lparr>users := update_users now userId
                                          (\<lambda>u. u\<lparr>password_hash := Some newPasswordHash,
                                                 last_password_change := Some now\<rparr>)
                                          (users st1)\<rparr>
                              in case findSessionByUserId userId st2 of
                                   Inl e \<Rightarrow> failed e st2
                                 | Inr currentSession \<Rightarrow>
                                     (case invalidateAllUserSessionsExcept userId
                                             (map_option json_id currentSession) st2 of
                                        (Inl e, st3) \<Rightarrow> failed e st3
                                      | (Inr _, st3) \<Rightarrow>
                                          (Inr (), logEvent (Some userId) ''password_changed''
                                                     True st3)))))))"

section \<open>Permission graph: \<open>models/User.js\<close>, \<open>models/Role.js\<close>, \<open>controllers/roleController.js\<close>\<close>

definition effective :: "timestamp \<Rightarrow> user_role \<Rightarrow> bool" where
  "effective now ur \<longleftrightarrow>
     ur_is_active ur \<and> (case ur_expires_at ur of None \<Rightarrow> True | Some e \<Rightarrow> e > now)"

text \<open>
  \<open>hasPermission\<close>: the \<open>COUNT(*)\<close> over the join of \<open>permissions\<close>, \<open>role_permissions\<close>
  and \<open>user_roles\<close>. The table \<open>roles\<close> is not part of the join.
\<close>

definition hasPermission :: "timestamp \<Rightarrow> string \<Rightarrow> nat \<Rightarrow> state \<Rightarrow> bool" where
  "hasPermission now permissionName userId st =
     (let count = length
            [(p, rp, ur).
               p \<leftarrow> permissions st,
               rp \<leftarrow> role_permissions st, p_id p = rp_permission_id rp,
               ur \<leftarrow> user_roles st, rp_role_id rp = ur_role_id ur,
               ur_user_id ur = userId \<and> p_name p = permissionName \<and> effective now ur
                 \<and> granted rp]
      in count > 0)"

text \<open>
  \<open>assignRole\<close>: \<open>INSERT ... ON CONFLICT (user_id, role_id) DO UPDATE\<close>. The foreign
  keys of \<open>user_roles\<close> (\<open>user_id\<close>, \<open>role_id\<close>, \<open>assigned_by\<close>) refuse a row that names a
  missing user or role.
\<close>

definition assignRole ::
  "timestamp \<Rightarrow> nat \<Rightarrow> nat option \<Rightarrow> timestamp option \<Rightarrow> user \<Rightarrow> state \<Rightarrow> (error + unit) \<times> state" where
  "assignRole now roleId assignedBy expiresAt this st =
     (if u_id this \<notin> u_id ` set (users st) \<or> roleId \<notin> r_id ` set (roles st)
         \<or> (case assignedBy of None \<Rightarrow> False | Some a \<Rightarrow> a \<notin> u_id ` set (users st))
      then (Inl ForeignKeyViolation, st)
      else if \<exists>ur \<in> set (user_roles st). ur_user_id ur = u_id this \<and> ur_role_id ur = roleId
      then (Inr (), st\<lparr>user_roles :=
              map (\<lambda>ur. if ur_user_id ur = u_id this \<and> ur_role_id ur = roleId
                        then ur\<lparr>ur_is_active := True, assigned_at := now,
                                assigned_by := assignedBy, ur_expires_at := expiresAt\<rparr>
                        else ur) (user_roles st)\<rparr>)
      else (Inr (), st\<lparr>user_roles := user_roles st @
              [\<lparr>ur_user_id = u_id this, ur_role_id = roleId, assigned_at = now,
                assigned_by = assignedBy, ur_expires_at = expiresAt, ur_is_active = True\<rparr>]\<rparr>))"

text \<open>
  \<open>Role.prototype.update\<close>: the fields of \<open>updateData\<close> that are present (of \<open>name\<close>,
  \<open>description\<close>, \<open>is_default\<close>) are written; with none present the object is returned
  as it is. The method does not read \<open>is_system_role\<close>. The \<open>UPDATE\<close> is refused when
  the new name is another role's (\<open>name\<close> is unique, reported first) or \<open>updated_by\<close>
  names no user.
\<close>

record role_update =
  new_name :: "string option"
  new_description :: "string option"
  new_is_default :: "bool option"

definition apply_role_update :: "role_update \<Rightarrow> role \<Rightarrow> role" where
  "apply_role_update upd r =
     r\<lparr>r_name := (case new_name upd of None \<Rightarrow> r_name r | Some n \<Rightarrow> n),
       r_description := (case new_description upd of None \<Rightarrow> r_description r | Some d \<Rightarrow> d),
       is_default := (case new_is_default upd of None \<Rightarrow> is_default r | Some b \<Rightarrow> b)\<rparr>"

definition Role_update ::
  "timestamp \<Rightarrow> role_update \<Rightarrow> nat option \<Rightarrow> role \<Rightarrow> state \<Rightarrow> (error + role) \<times> state" where
  "Role_update now updateData updatedBy this st =
     (if new_name updateData = None \<and> new_description updateData = None
         \<and> new_is_default updateData = None
      then (Inr this, st)
      else if (case new_name updateData of
                 None \<Rightarrow> False
               | Some n \<Rightarrow> (\<exists>r \<in> set (roles st). r_id r = r_id this)
                           \<and> (\<exists>r \<in> set (roles st). r_id r \<noteq> r_id this \<and> r_name r = n))
      then (Inl UniqueViolation, st)
      else if (case updatedBy of None \<Rightarrow> False | Some a \<Rightarrow> a \<notin> u_id ` set (users st))
              \<and> (\<exists>r \<in> set (roles st). r_id r = r_id this)
      then (Inl ForeignKeyViolation, st)
      else
        (let rs = map (\<lambda>r. if r_id r = r_id this
                           then (apply_role_update updateData r)
                                  \<lparr>r_updated_by := updatedBy, r_updated_at := now\<rparr>
                           else r) (roles st)
         in case filter (\<lambda>r. r_id r = r_id this) rs of
              [] \<Rightarrow> (Inr this, st\<lparr>roles := rs\<rparr>)
            | row # _ \<Rightarrow> (Inr row, st\<lparr>roles := rs\<rparr>)))"

text \<open>
  \<open>Role.prototype.delete\<close>: the count is over the rows of \<open>user_roles\<close> with
  \<open>is_active = TRUE\<close>; \<open>expires_at\<close> is not in the query. The \<open>DELETE\<close> is refused while
  another role names this one as its parent (\<open>parent_role_id REFERENCES roles\<close>), and
  cascades to \<open>user_roles\<close> and \<open>role_permissions\<close>.
\<close>

definition Role_delete :: "role \<Rightarrow> state \<Rightarrow> (error + bool) \<times> state" where
  "Role_delete this st =
     (if is_system_role this then (Inl CannotDeleteSystemRole, st)
      else
        (let userCount = length (filter (\<lambda>ur. ur_role_id ur = r_id this \<and> ur_is_active ur)
                                        (user_roles st))
         in if userCount > 0 then (Inl CannotDeleteAssignedRole, st)
            else if (\<exists>r \<in> set (roles st). r_id r = r_id this)
                    \<and> (\<exists>c \<in> set (roles st). parent_role_id c = Some (r_id this))
            then (Inl ForeignKeyViolation, st)
            else (Inr True,
                  st\<lparr>roles := filter (\<lambda>r. r_id r \<noteq> r_id this) (roles st),
                     user_roles := filter (\<lambda>ur. ur_role_id ur \<noteq> r_id this) (user_roles st),
                     role_permissions := filter (\<lambda>rp. rp_role_id rp \<noteq> r_id this)
                                                (role_permissions st)\<rparr>)))"

definition Role_findById :: "nat \<Rightarrow> state \<Rightarrow> role option" where
  "Role_findById i st =
     (case filter (\<lambda>r. r_id r = i) (roles st) of [] \<Rightarrow> None | r # _ \<Rightarrow> Some r)"

definition Role_findByName :: "string \<Rightarrow> state \<Rightarrow> role option" where
  "Role_findByName n st =
     (case filter (\<lambda>r. r_name r = n) (roles st) of [] \<Rightarrow> None | r # _ \<Rightarrow> Some r)"

text \<open>
  \<open>RoleController.updateRole\<close> and \<open>RoleController.deleteRole\<close>, after the validation of
  the request body: the controller answers 404, 403 or 409 before it calls the model.
\<close>

definition updateRole ::
  "timestamp \<Rightarrow> nat \<Rightarrow> role_update \<Rightarrow> nat \<Rightarrow> state \<Rightarrow> (error + role) \<times> state" where
  "updateRole now roleId val reqUserId st =
     (case Role_findById roleId st of
        None \<Rightarrow> (Inl RoleNotFound, st)
      | Some role \<Rightarrow>
          if is_system_role role then (Inl CannotModifySystemRole, st)
          else if (case new_name val of
                     None \<Rightarrow> False
                   | Some n \<Rightarrow> n \<noteq> [] \<and> n \<noteq> r_name role \<and> Role_findByName n st \<noteq> None)
          then (Inl RoleNameExists, st)
          else (case Role_update now val (Some reqUserId) role st of
                  (Inl e, st1) \<Rightarrow> (Inl e, st1)
                | (Inr updatedRole, st1) \<Rightarrow>
                    (Inr updatedRole, logEvent (Some reqUserId) ''role_updated'' True st1)))"

definition deleteRole :: "nat \<Rightarrow> nat \<Rightarrow> state \<Rightarrow> (error + bool) \<times> state" where
  "deleteRole roleId reqUserId st =
     (case Role_findById roleId st of
        None \<Rightarrow> (Inl RoleNotFound, st)
      | Some role \<Rightarrow>
          if is_system_role role then (Inl CannotDeleteSystemRole, st)
          else (case Role_delete role st of
                  (Inl e, st1) \<Rightarrow> (Inl e, st1)
                | (Inr deleted, st1) \<Rightarrow>
                    (Inr deleted, logEvent (Some reqUserId) ''role_deleted'' True st1)))"

section \<open>Concrete states\<close>

text \<open>
  A stand-in for bcrypt on which the examples compute: the hash of a password is the
  password behind a prefix.
\<close>

definition demo_compare :: "string \<Rightarrow> string \<Rightarrow> bool" where
  "demo_compare plain h \<longleftrightarrow> h = ''hash:'' @ plain"

definition demo_hash :: "string \<Rightarrow> string" where
  "demo_hash plain = ''hash:'' @ plain"

definition alice :: user where
  "alice = \<lparr>u_id = 1, email = ''alice@example.com'', password_hash = Some ''hash:correct'',
     password_reset_token = Some ''reset-1'', password_reset_expires = Some 5000,
     last_password_change = None, failed_login_attempts = 0, account_locked_until = None,
     last_login = None, u_is_active = True, u_updated_at = 0\<rparr>"

definition bob :: user where
  "bob = \<lparr>u_id = 2, email = ''bob@example.com'', password_hash = Some ''hash:hunter2'',
     password_reset_token = None, password_reset_expires = None,
     last_password_change = None, failed_login_attempts = 4, account_locked_until = None,
     last_login = None, u_is_active = True, u_updated_at = 0\<rparr>"

definition no_store :: state where
  "no_store = \<lparr>users = [], roles = [], permissions = [], user_roles = [],
     role_permissions = [], user_sessions = [], user_sessions_seq = 0, audit_logs = [],
     redis = None, bcrypt_compares = 0\<rparr>"

definition st_users :: state where
  "st_users = no_store\<lparr>users := [alice, bob]\<rparr>"

definition editor :: role where
  "editor = \<lparr>r_id = 1, r_name = ''Editor'', r_description = ''edits posts'',
     is_system_role = False, is_default = False, parent_role_id = None, level = 0,
     r_updated_by = None, r_updated_at = 0\<rparr>"

definition admin :: role where
  "admin = \<lparr>r_id = 2, r_name = ''Admin'', r_description = ''administrative access'',
     is_system_role = True, is_default = False, parent_role_id = None, level = 0,
     r_updated_by = None, r_updated_at = 0\<rparr>"

definition junior_editor :: role where
  "junior_editor = \<lparr>r_id = 3, r_name = ''Junior Editor'', r_description = ''child of Editor'',
     is_system_role = False, is_default = False, parent_role_id = Some 1, level = 1,
     r_updated_by = None, r_updated_at = 0\<rparr>"

definition guest :: role where
  "guest = \<lparr>r_id = 4, r_name = ''Guest'', r_description = ''read-only access'',
     is_system_role = False, is_default = False, parent_role_id = None, level = 0,
     r_updated_by = None, r_updated_at = 0\<rparr>"

definition posts_edit :: permission where
  "posts_edit = \<lparr>p_id = 1, p_name = ''posts.edit'', is_system_permission = False\<rparr>"

text \<open>
  Alice holds Junior Editor; Bob's assignment of Editor is active in its row and expired
  since time 100. Only Editor is granted \<open>posts.edit\<close>.
\<close>

definition st_rbac :: state where
  "st_rbac = st_users\<lparr>
     roles := [editor, admin, junior_editor, guest],
     permissions := [posts_edit],
     role_permissions := [\<lparr>rp_role_id = 1, rp_permission_id = 1, granted = True\<rparr>],
     user_roles :=
       [\<lparr>ur_user_id = 1, ur_role_id = 3, assigned_at = 0, assigned_by = None,
         ur_expires_at = None, ur_is_active = True\<rparr>,
        \<lparr>ur_user_id = 2, ur_role_id = 1, assigned_at = 0, assigned_by = Some 1,
         ur_expires_at = Some 100, ur_is_active = True\<rparr>]\<rparr>"

definition demo_sha256 :: "string \<Rightarrow> string" where
  "demo_sha256 s = ''sha256:'' @ s"

definition alice_login :: session_data where
  "alice_login = \<lparr>sd_user_id = 1, access_token = ''tok-a'', sd_refresh_token = ''refresh-a'',
     sd_ip_address = ''10.0.0.1'', sd_user_agent = ''browser'', sd_is_remembered = False\<rparr>"

text \<open>The store with a cache that is up and empty, and with a cache that is down.\<close>

definition st_cache :: state where
  "st_cache = st_users\<lparr>redis := Some \<lparr>up = True, kv = Map.empty\<rparr>\<rparr>"

definition st_cache_down :: state where
  "st_cache_down = st_users\<lparr>redis := Some \<lparr>up = False, kv = Map.empty\<rparr>\<rparr>"

text \<open>
  Alice logs in at time 1000 with the cache up; then the kill switch of her session is
  set in the ledger (no method of \<open>TokenService\<close> writes \<open>force_logout\<close>; the column is
  set in the database).
\<close>

definition st_logged_in :: state where
  "st_logged_in = snd (createSession demo_sha256 1000 alice_login st_cache)"

definition st_forced_out :: state where
  "st_forced_out = st_logged_in\<lparr>user_sessions :=
     map (\<lambda>s. if session_token s = ''tok-a'' then s\<lparr>force_logout := True\<rparr> else s)
         (user_sessions st_logged_in)\<rparr>"

text \<open>Carol has seven failed attempts behind her and a lock that ended at time 500.\<close>

definition carol :: user where
  "carol = \<lparr>u_id = 3, email = ''carol@example.com'', password_hash = Some ''hash:swordfish'',
     password_reset_token = None, password_reset_expires = None,
     last_password_change = None, failed_login_attempts = 7, account_locked_until = Some 500,
     last_login = None, u_is_active = True, u_updated_at = 0\<rparr>"

definition st_carol :: state where
  "st_carol = no_store\<lparr>users := [carol]\<rparr>"




section \<open>Conditions on the state\<close>

text \<open>
  The cache commands are answered: the cache is disabled or its connection is up.
\<close>

definition redis_available :: "state \<Rightarrow> bool" where
  "redis_available st \<longleftrightarrow> (case redis st of None \<Rightarrow> True | Some rc \<Rightarrow> up rc)"

text \<open>
  No session that the ledger holds as invalidated still has an entry in the cache: the
  state that every invalidation which reached its cache delete leaves behind.
\<close>

definition no_stale_entries :: "state \<Rightarrow> bool" where
  "no_stale_entries st \<longleftrightarrow>
     (case redis st of
        None \<Rightarrow> True
      | Some rc \<Rightarrow>
          list_all (\<lambda>s. s_is_active s \<or> kv rc (sessionKey (session_token s)) = None)
                   (user_sessions st))"

section \<open>Lockout policy\<close>

lemma logEvent_fields [simp]:
  "users (logEvent uid ev ok st) = users st"
  "user_sessions (logEvent uid ev ok st) = user_sessions st"
  "redis (logEvent uid ev ok st) = redis st"
  "bcrypt_compares (logEvent uid ev ok st) = bcrypt_compares st"
  by (simp_all add: logEvent_def)

lemma filter_id_update_users:
  assumes "\<And>u. u_id (f u) = u_id u"
  shows "filter (\<lambda>u. u_id u = i) (update_users now j f us) =
         map (\<lambda>u. if u_id u = j then update_updated_at_column now (check_account_lockout now (f u)) else u)
             (filter (\<lambda>u. u_id u = i) us)"
  using assms
  by (induction us) (auto simp: update_users_def update_updated_at_column_def check_account_lockout_def Let_def)

lemma filter_email_update_users:
  assumes "\<And>u. email (f u) = email u"
  shows "filter (\<lambda>u. email u = e) (update_users now j f us) =
         map (\<lambda>u. if u_id u = j then update_updated_at_column now (check_account_lockout now (f u)) else u)
             (filter (\<lambda>u. email u = e) us)"
  using assms
  by (induction us) (auto simp: update_users_def update_updated_at_column_def check_account_lockout_def Let_def)

lemma filter_hd_sat:
  assumes "filter P xs = x # ys"
  shows "P x"
proof -
  have "x \<in> set (filter P xs)" using assms by simp
  then show ?thesis by simp
qed

lemma check_account_lockout_fields:
  "failed_login_attempts (check_account_lockout now u) = failed_login_attempts u"
  "account_locked_until (check_account_lockout now u) =
     (if failed_login_attempts u \<ge> 15 then Some (now + hours 24)
      else if failed_login_attempts u \<ge> 10 then Some (now + hours 1)
      else if failed_login_attempts u \<ge> 5 then Some (now + minutes 30)
      else account_locked_until u)"
  "u_id (check_account_lockout now u) = u_id u"
  "email (check_account_lockout now u) = email u"
  "password_hash (check_account_lockout now u) = password_hash u"
  "u_is_active (check_account_lockout now u) = u_is_active u"
  by (auto simp: check_account_lockout_def Let_def)

lemma lockout_updates:
  assumes "findById (u_id this) st = Some u"
  shows "(\<exists>u'. findById (u_id this) (snd (incrementFailedLoginAttempts now this st)) = Some u'
           \<and> failed_login_attempts u' = failed_login_attempts u + 1
           \<and> account_locked_until u' =
               (if failed_login_attempts u + 1 \<ge> 15 then Some (now + hours 24)
                else if failed_login_attempts u + 1 \<ge> 10 then Some (now + hours 1)
                else if failed_login_attempts u + 1 \<ge> 5 then Some (now + minutes 30)
                else account_locked_until u))
       \<and> (\<exists>u'. findById (u_id this) (snd (resetFailedLoginAttempts now this st)) = Some u'
           \<and> failed_login_attempts u' = 0 \<and> account_locked_until u' = None)"
  using assms
  by (auto simp: findById_def incrementFailedLoginAttempts_def resetFailedLoginAttempts_def Let_def
       filter_id_update_users check_account_lockout_fields update_updated_at_column_def public_columns_def
      split: list.splits dest: filter_hd_sat)

lemma findByEmail_public:
  "findByEmail e False st = map_option public_columns (findByEmail e True st)"
  by (simp add: findByEmail_def split: list.splits)

lemma findByEmail_email: "findByEmail e b st = Some u \<Longrightarrow> email u = e"
  by (auto simp: findByEmail_def public_columns_def split: list.splits if_splits dest: filter_hd_sat)

lemma public_columns_fields [simp]:
  "u_id (public_columns u) = u_id u"
  "email (public_columns u) = email u"
  "u_is_active (public_columns u) = u_is_active u"
  "failed_login_attempts (public_columns u) = failed_login_attempts u"
  "account_locked_until (public_columns u) = account_locked_until u"
  by (simp_all add: public_columns_def)

lemma isAccountLocked_public [simp]:
  "isAccountLocked t (public_columns u) = isAccountLocked t u"
  by (simp add: isAccountLocked_def)

lemma verifyPassword_locked:
  "isAccountLocked now this \<Longrightarrow> verifyPassword cmp now pw this st = (Inl AccountLocked, this, st)"
  by (simp add: verifyPassword_def)

lemma login_credentials_locked:
  assumes "findByEmail e True st = Some u" "u_is_active u" "isAccountLocked t u"
  shows "login_credentials cmp t e pw st = (Inl AccountLocked, st)"
  using assms
  by (simp add: login_credentials_def findByEmail_public verifyPassword_locked)

lemma login_wrong_step:
  assumes "findByEmail e True st = Some u" "u_is_active u" "\<not> isAccountLocked t u"
    "password_hash u = Some h" "\<not> cmp pw h"
  shows "(\<exists>u'. findByEmail e True (snd (login_credentials cmp t e pw st)) = Some u'
           \<and> failed_login_attempts u' = failed_login_attempts u + 1
           \<and> account_locked_until u' =
               (if failed_login_attempts u + 1 \<ge> 15 then Some (t + hours 24)
                else if failed_login_attempts u + 1 \<ge> 10 then Some (t + hours 1)
                else if failed_login_attempts u + 1 \<ge> 5 then Some (t + minutes 30)
                else account_locked_until u)
           \<and> password_hash u' = Some h \<and> u_is_active u')
     \<and> fst (login_credentials cmp t e pw st) = Inl InvalidEmailOrPassword
     \<and> bcrypt_compares (snd (login_credentials cmp t e pw st)) = bcrypt_compares st + 1"
proof -
  let ?st1 = "st\<lparr>bcrypt_compares := bcrypt_compares st + 1\<rparr>"
  let ?st2 = "?st1\<lparr>users := update_users t (u_id u)
                 (\<lambda>u. u\<lparr>failed_login_attempts := failed_login_attempts u + 1\<rparr>) (users st)\<rparr>"
  have e: "email u = e" using assms(1) by (rule findByEmail_email)
  have pub: "findByEmail e False st = Some (public_columns u)"
    using assms(1) by (simp add: findByEmail_public)
  have inc: "snd (incrementFailedLoginAttempts t (public_columns u) ?st1) = ?st2"
    by (simp add: incrementFailedLoginAttempts_def Let_def split: list.splits)
  have vp: "verifyPassword cmp t pw (public_columns u) st =
     (Inr False, fst (incrementFailedLoginAttempts t (public_columns u) ?st1), ?st2)"
    using assms e inc by (simp add: verifyPassword_def Let_def prod_eq_iff split: prod.splits)
  have lc: "login_credentials cmp t e pw st =
     (Inl InvalidEmailOrPassword, logEvent (Some (u_id u)) ''login_failed'' False ?st2)"
    using assms(2) by (simp add: login_credentials_def pub vp)
  have a: "fst (login_credentials cmp t e pw st) = Inl InvalidEmailOrPassword"
    by (simp add: lc)
  have b: "bcrypt_compares (snd (login_credentials cmp t e pw st)) = bcrypt_compares st + 1"
    by (simp add: lc)
  have c: "\<exists>u'. findByEmail e True (snd (login_credentials cmp t e pw st)) = Some u'
           \<and> failed_login_attempts u' = failed_login_attempts u + 1
           \<and> account_locked_until u' =
               (if failed_login_attempts u + 1 \<ge> 15 then Some (t + hours 24)
                else if failed_login_attempts u + 1 \<ge> 10 then Some (t + hours 1)
                else if failed_login_attempts u + 1 \<ge> 5 then Some (t + minutes 30)
                else account_locked_until u)
           \<and> password_hash u' = Some h \<and> u_is_active u'"
    using assms(1,2,4)
    by (auto simp: lc findByEmail_def filter_email_update_users
          check_account_lockout_fields update_updated_at_column_def split: list.splits)
  from a b c show ?thesis by blast
qed

lemma login_attempts_append:
  "login_attempts cmp e (xs @ ys) st = login_attempts cmp e ys (login_attempts cmp e xs st)"
  by (induction xs arbitrary: st) auto

lemma wrong_attempts_below_threshold:
  assumes "findByEmail e True st = Some u" "u_is_active u" "password_hash u = Some h"
    "\<forall>(t, pw) \<in> set xs. \<not> cmp pw h" "account_locked_until u = None"
    "failed_login_attempts u + int (length xs) < 5"
  shows "(\<exists>u'. findByEmail e True (login_attempts cmp e xs st) = Some u'
           \<and> failed_login_attempts u' = failed_login_attempts u + int (length xs)
           \<and> account_locked_until u' = None
           \<and> password_hash u' = Some h \<and> u_is_active u')
       \<and> bcrypt_compares (login_attempts cmp e xs st) = bcrypt_compares st + length xs"
  using assms
proof (induction xs arbitrary: st u)
  case Nil
  then show ?case by simp
next
  case (Cons x xs)
  obtain t pw where x: "x = (t, pw)" by (cases x)
  have nl: "\<not> isAccountLocked t u" using Cons.prems(5) by (simp add: isAccountLocked_def)
  have w: "\<not> cmp pw h" using Cons.prems(4) x by auto
  from login_wrong_step[where cmp=cmp and pw=pw and h=h, OF Cons.prems(1) Cons.prems(2) nl Cons.prems(3) w]
  obtain u' where u': "findByEmail e True (snd (login_credentials cmp t e pw st)) = Some u'"
      "failed_login_attempts u' = failed_login_attempts u + 1"
      "account_locked_until u' = None" "password_hash u' = Some h" "u_is_active u'"
    and bc: "bcrypt_compares (snd (login_credentials cmp t e pw st)) = bcrypt_compares st + 1"
    using Cons.prems(5,6) by auto
  have rest: "\<forall>(t, pw) \<in> set xs. \<not> cmp pw h" using Cons.prems(4) by auto
  have lt: "failed_login_attempts u' + int (length xs) < 5" using Cons.prems(6) u'(2) by simp
  show ?case
    using Cons.IH[OF u'(1) u'(5) u'(4) rest u'(3) lt] u'(2) bc x by auto
qed


lemma lockout_scenario_aux:
  assumes "findByEmail e True st = Some u" "u_is_active u" "password_hash u = Some h"
    "failed_login_attempts u = 0" "account_locked_until u = None"
    "length bad = 5" "\<forall>(t, pw) \<in> set bad. \<not> cmp pw h"
    "t6 < fst (last bad) + minutes 30"
  shows "login_credentials cmp t6 e pw6 (login_attempts cmp e bad st)
           = (Inl AccountLocked, login_attempts cmp e bad st)
         \<and> bcrypt_compares (login_attempts cmp e bad st) = bcrypt_compares st + 5"
proof -
  obtain ys x where bad: "bad = ys @ [x]" and ly: "length ys = 4"
    using assms(6) by (cases bad rule: rev_cases) auto
  obtain t5 p5 where x: "x = (t5, p5)" by (cases x)
  have ys_bad: "\<forall>(t, pw) \<in> set ys. \<not> cmp pw h" and w5: "\<not> cmp p5 h"
    using assms(7) bad x by auto
  have lt: "failed_login_attempts u + int (length ys) < 5" using assms(4) ly by simp
  from wrong_attempts_below_threshold[where cmp=cmp and h=h and xs=ys, OF assms(1,2,3) ys_bad assms(5) lt]
  obtain u4 where u4: "findByEmail e True (login_attempts cmp e ys st) = Some u4"
      "failed_login_attempts u4 = 4" "account_locked_until u4 = None"
      "password_hash u4 = Some h" "u_is_active u4"
    and bc4: "bcrypt_compares (login_attempts cmp e ys st) = bcrypt_compares st + 4"
    using assms(4) ly by auto
  have nl: "\<not> isAccountLocked t5 u4" using u4(3) by (simp add: isAccountLocked_def)
  let ?st4 = "login_attempts cmp e ys st"
  from login_wrong_step[where cmp=cmp and pw=p5 and h=h, OF u4(1) u4(5) nl u4(4) w5]
  obtain u5 where u5: "findByEmail e True (snd (login_credentials cmp t5 e p5 ?st4)) = Some u5"
      "account_locked_until u5 = Some (t5 + minutes 30)" "u_is_active u5"
    and bc5: "bcrypt_compares (snd (login_credentials cmp t5 e p5 ?st4)) = bcrypt_compares ?st4 + 1"
    using u4(2) by auto
  have st5: "login_attempts cmp e bad st = snd (login_credentials cmp t5 e p5 ?st4)"
    by (simp add: bad x login_attempts_append)
  have "isAccountLocked t6 u5" using assms(8) u5(2) bad x by (simp add: isAccountLocked_def)
  then have "login_credentials cmp t6 e pw6 (login_attempts cmp e bad st)
           = (Inl AccountLocked, login_attempts cmp e bad st)"
    using login_credentials_locked[OF _ u5(3)] u5(1) st5 by simp
  moreover have "bcrypt_compares (login_attempts cmp e bad st) = bcrypt_compares st + 5"
    using st5 bc5 bc4 by simp
  ultimately show ?thesis by simp
qed

text \<open>
  Claim C4. While \<open>account_locked_until\<close> of the user object is in the future,
  \<open>verifyPassword\<close> fails with the locked-account error and \<open>bcrypt.compare\<close> is not
  called, whatever the password. In particular: for a user with no failed attempts and
  no lock, after five logins with wrong passwords a sixth login within 30 minutes of
  the fifth, with the right password, fails with the locked-account error, and the hash
  comparison has run five times, not six.
\<close>

theorem locked_account_fails_before_hash:
  "(isAccountLocked now this \<longrightarrow>
      fst (verifyPassword cmp now pw this st) = Inl AccountLocked
      \<and> bcrypt_compares (snd (snd (verifyPassword cmp now pw this st))) = bcrypt_compares st)
   \<and> (findByEmail e True st = Some u \<and> u_is_active u \<and> password_hash u = Some h
        \<and> failed_login_attempts u = 0 \<and> account_locked_until u = None
        \<and> length bad = 5 \<and> (\<forall>(t, p) \<in> set bad. \<not> cmp p h) \<and> cmp good h
        \<and> t6 < fst (last bad) + minutes 30 \<longrightarrow>
      fst (login_credentials cmp t6 e good (login_attempts cmp e bad st)) = Inl AccountLocked
      \<and> bcrypt_compares (snd (login_credentials cmp t6 e good (login_attempts cmp e bad st)))
          = bcrypt_compares st + 5)"
proof (intro conjI impI)
  assume "isAccountLocked now this"
  then show "fst (verifyPassword cmp now pw this st) = Inl AccountLocked"
    and "bcrypt_compares (snd (snd (verifyPassword cmp now pw this st))) = bcrypt_compares st"
    by (simp_all add: verifyPassword_locked)
next
  assume a: "findByEmail e True st = Some u \<and> u_is_active u \<and> password_hash u = Some h
        \<and> failed_login_attempts u = 0 \<and> account_locked_until u = None
        \<and> length bad = 5 \<and> (\<forall>(t, p) \<in> set bad. \<not> cmp p h) \<and> cmp good h
        \<and> t6 < fst (last bad) + minutes 30"
  then have s: "login_credentials cmp t6 e good (login_attempts cmp e bad st)
           = (Inl AccountLocked, login_attempts cmp e bad st)
         \<and> bcrypt_compares (login_attempts cmp e bad st) = bcrypt_compares st + 5"
    by (intro lockout_scenario_aux[where u=u and h=h]) simp_all
  show "fst (login_credentials cmp t6 e good (login_attempts cmp e bad st)) = Inl AccountLocked"
    using s by simp
  show "bcrypt_compares (snd (login_credentials cmp t6 e good (login_attempts cmp e bad st)))
          = bcrypt_compares st + 5"
    using s by simp
qed

lemma st_users_alice: "findByEmail ''alice@example.com'' True st_users = Some alice"
  by (simp add: findByEmail_def st_users_def no_store_def alice_def bob_def)

theorem locked_account_fails_before_hash_witness:
  "isAccountLocked 1000 (alice\<lparr>account_locked_until := Some 2000\<rparr>)
   \<and> fst (verifyPassword demo_compare 1000 ''correct'' (alice\<lparr>account_locked_until := Some 2000\<rparr>) st_users)
       = Inl AccountLocked
   \<and> findByEmail ''alice@example.com'' True st_users = Some alice \<and> u_is_active alice
   \<and> password_hash alice = Some ''hash:correct''
   \<and> failed_login_attempts alice = 0 \<and> account_locked_until alice = None
   \<and> list_all (\<lambda>(t, p). \<not> demo_compare p ''hash:correct'')
         [(1::int, ''a''), (2, ''b''), (3, ''c''), (4, ''d''), (5, ''e'')]
   \<and> demo_compare ''correct'' ''hash:correct''
   \<and> (6::int) < fst (last [(1::int, ''a''), (2, ''b''), (3, ''c''), (4, ''d''), (5, ''e'')]) + minutes 30
   \<and> fst (login_credentials demo_compare 6 ''alice@example.com'' ''correct''
         (login_attempts demo_compare ''alice@example.com''
            [(1, ''a''), (2, ''b''), (3, ''c''), (4, ''d''), (5, ''e'')] st_users)) = Inl AccountLocked"
  using locked_account_fails_before_hash[of 1000 "alice\<lparr>account_locked_until := Some 2000\<rparr>"
      demo_compare "''correct''" st_users "''alice@example.com''" alice "''hash:correct''"
      "[(1, ''a''), (2, ''b''), (3, ''c''), (4, ''d''), (5, ''e'')]" "''correct''" 6]
    st_users_alice
  by (simp add: isAccountLocked_def alice_def demo_compare_def minutes_def)

lemma login_attempts_locked:
  assumes "findByEmail e True st = Some u" "\<forall>(t, pw) \<in> set xs. isAccountLocked t u"
  shows "login_attempts cmp e xs st = st"
  using assms
proof (induction xs)
  case Nil
  then show ?case by simp
next
  case (Cons x xs)
  obtain t pw where x: "x = (t, pw)" by (cases x)
  have "login_credentials cmp t e pw st = (Inl AccountLocked, st)
        \<or> login_credentials cmp t e pw st = (Inl AccountDeactivated, st)"
    using Cons.prems x
    by (auto simp: login_credentials_def findByEmail_public verifyPassword_locked)
  then have "snd (login_credentials cmp t e pw st) = st" by auto
  then show ?case using Cons x by auto
qed

text \<open>
  Claim C10. While \<open>account_locked_until\<close> of the user object is in the future,
  \<open>verifyPassword\<close> changes neither the object nor the store, so neither
  \<open>failed_login_attempts\<close> nor \<open>account_locked_until\<close>; and any run of login
  attempts that all fall inside the lock window leaves the whole state as it was.
\<close>

theorem locked_attempts_leave_counter:
  "(isAccountLocked now this \<longrightarrow>
      snd (verifyPassword cmp now pw this st) = (this, st))
   \<and> (findByEmail e True st = Some u \<and> (\<forall>(t, p) \<in> set xs. isAccountLocked t u) \<longrightarrow>
        login_attempts cmp e xs st = st)"
  using login_attempts_locked[of e st u xs cmp]
  by (auto simp: verifyPassword_locked)

theorem locked_attempts_leave_counter_witness:
  "isAccountLocked 1000 (alice\<lparr>account_locked_until := Some 2000\<rparr>)
   \<and> snd (verifyPassword demo_compare 1000 ''wrong'' (alice\<lparr>account_locked_until := Some 2000\<rparr>) st_users)
       = (alice\<lparr>account_locked_until := Some 2000\<rparr>, st_users)
   \<and> findByEmail ''alice@example.com'' True (st_users\<lparr>users := [alice\<lparr>account_locked_until := Some 2000\<rparr>]\<rparr>)
        = Some (alice\<lparr>account_locked_until := Some 2000\<rparr>)
   \<and> list_all (\<lambda>(t, p). isAccountLocked t (alice\<lparr>account_locked_until := Some 2000\<rparr>))
         [(1000, ''x''), (1500, ''correct'')]
   \<and> login_attempts demo_compare ''alice@example.com'' [(1000, ''x''), (1500, ''correct'')]
        (st_users\<lparr>users := [alice\<lparr>account_locked_until := Some 2000\<rparr>]\<rparr>)
       = st_users\<lparr>users := [alice\<lparr>account_locked_until := Some 2000\<rparr>]\<rparr>"
  using locked_attempts_leave_counter[of 1000 "alice\<lparr>account_locked_until := Some 2000\<rparr>"
      demo_compare "''wrong''" st_users]
    locked_attempts_leave_counter[of 1000 "alice\<lparr>account_locked_until := Some 2000\<rparr>"
      demo_compare "''wrong''" "st_users\<lparr>users := [alice\<lparr>account_locked_until := Some 2000\<rparr>]\<rparr>"
      "''alice@example.com''" "alice\<lparr>account_locked_until := Some 2000\<rparr>"
      "[(1000, ''x''), (1500, ''correct'')]"]
  by (simp add: isAccountLocked_def alice_def findByEmail_def)

lemma verifyPassword_success_state:
  assumes "fst (verifyPassword cmp now pw this st) = Inr True"
  shows "verifyPassword cmp now pw this st =
           (Inr True, fst (resetFailedLoginAttempts now this (st\<lparr>bcrypt_compares := bcrypt_compares st + 1\<rparr>)),
            snd (resetFailedLoginAttempts now this (st\<lparr>bcrypt_compares := bcrypt_compares st + 1\<rparr>)))"
  using assms
  by (auto simp: verifyPassword_def Let_def split: if_splits option.splits prod.splits)

lemma verifyPassword_failure_state:
  assumes "fst (verifyPassword cmp now pw this st) = Inr False"
  shows "verifyPassword cmp now pw this st =
           (Inr False, fst (incrementFailedLoginAttempts now this (st\<lparr>bcrypt_compares := bcrypt_compares st + 1\<rparr>)),
            snd (incrementFailedLoginAttempts now this (st\<lparr>bcrypt_compares := bcrypt_compares st + 1\<rparr>)))"
  using assms
  by (auto simp: verifyPassword_def Let_def split: if_splits option.splits prod.splits)

lemma findById_bcrypt [simp]:
  "findById i (st\<lparr>bcrypt_compares := n\<rparr>) = findById i st"
  by (simp add: findById_def)

lemma verifyPassword_outcome:
  assumes "\<not> isAccountLocked now this" "findByEmail (email this) True st = Some r"
    "password_hash r = Some h"
  shows "fst (verifyPassword cmp now pw this st) = Inr (cmp pw h)"
  using assms by (simp add: verifyPassword_def Let_def split: prod.splits)

text \<open>
  Claim C2. For a user of the store: the update made by a failed attempt leaves
  \<open>account_locked_until\<close> at 30 minutes from now once the counter is 5 or more, at
  1 hour once it is 10 or more, at 24 hours once it is 15 or more, and untouched while
  the counter is below 5; the update made on success sets the counter to 0 and the lock
  to null. \<open>verifyPassword\<close> on an account that is not locked answers whether the
  password matches the stored hash; when it answers false the row has gone through
  the first update, and when it answers true (a successful authentication) the row and
  the object have counter 0 and no lock, whatever the counter was.
\<close>

theorem lockout_escalation:
  assumes "findById (u_id this) st = Some u"
  shows "(\<exists>u'. findById (u_id this) (snd (incrementFailedLoginAttempts now this st)) = Some u'
           \<and> failed_login_attempts u' = failed_login_attempts u + 1
           \<and> account_locked_until u' =
               (if failed_login_attempts u + 1 \<ge> 15 then Some (now + hours 24)
                else if failed_login_attempts u + 1 \<ge> 10 then Some (now + hours 1)
                else if failed_login_attempts u + 1 \<ge> 5 then Some (now + minutes 30)
                else account_locked_until u))
       \<and> (\<exists>u'. findById (u_id this) (snd (resetFailedLoginAttempts now this st)) = Some u'
           \<and> failed_login_attempts u' = 0 \<and> account_locked_until u' = None)
       \<and> (\<not> isAccountLocked now this \<and> findByEmail (email this) True st = Some r
            \<and> password_hash r = Some h \<longrightarrow>
          fst (verifyPassword cmp now pw this st) = Inr (cmp pw h))
       \<and> (fst (verifyPassword cmp now pw this st) = Inr False \<longrightarrow>
          (\<exists>u'. findById (u_id this) (snd (snd (verifyPassword cmp now pw this st))) = Some u'
           \<and> failed_login_attempts u' = failed_login_attempts u + 1
           \<and> account_locked_until u' =
               (if failed_login_attempts u + 1 \<ge> 15 then Some (now + hours 24)
                else if failed_login_attempts u + 1 \<ge> 10 then Some (now + hours 1)
                else if failed_login_attempts u + 1 \<ge> 5 then Some (now + minutes 30)
                else account_locked_until u)))
       \<and> (fst (verifyPassword cmp now pw this st) = Inr True \<longrightarrow>
          (\<exists>u'. findById (u_id this) (snd (snd (verifyPassword cmp now pw this st))) = Some u'
           \<and> failed_login_attempts u' = 0 \<and> account_locked_until u' = None)
          \<and> failed_login_attempts (fst (snd (verifyPassword cmp now pw this st))) = 0
          \<and> account_locked_until (fst (snd (verifyPassword cmp now pw this st))) = None)"
proof -
  let ?st1 = "st\<lparr>bcrypt_compares := bcrypt_compares st + 1\<rparr>"
  have f1: "findById (u_id this) ?st1 = Some u" using assms by simp
  note direct = lockout_updates[OF assms, of now]
  note counted = lockout_updates[OF f1, of now]
  have out: "fst (verifyPassword cmp now pw this st) = Inr (cmp pw h)"
    if "\<not> isAccountLocked now this \<and> findByEmail (email this) True st = Some r
            \<and> password_hash r = Some h"
    using that verifyPassword_outcome[of now this st r h cmp pw] by blast
  have bad: "\<exists>u'. findById (u_id this) (snd (snd (verifyPassword cmp now pw this st))) = Some u'
           \<and> failed_login_attempts u' = failed_login_attempts u + 1
           \<and> account_locked_until u' =
               (if failed_login_attempts u + 1 \<ge> 15 then Some (now + hours 24)
                else if failed_login_attempts u + 1 \<ge> 10 then Some (now + hours 1)
                else if failed_login_attempts u + 1 \<ge> 5 then Some (now + minutes 30)
                else account_locked_until u)"
    if "fst (verifyPassword cmp now pw this st) = Inr False"
    using counted unfolding verifyPassword_failure_state[OF that] by simp
  have good: "(\<exists>u'. findById (u_id this) (snd (snd (verifyPassword cmp now pw this st))) = Some u'
           \<and> failed_login_attempts u' = 0 \<and> account_locked_until u' = None)
          \<and> failed_login_attempts (fst (snd (verifyPassword cmp now pw this st))) = 0
          \<and> account_locked_until (fst (snd (verifyPassword cmp now pw this st))) = None"
    if "fst (verifyPassword cmp now pw this st) = Inr True"
    using counted unfolding verifyPassword_success_state[OF that]
    by (simp add: resetFailedLoginAttempts_def Let_def)
  show ?thesis using direct out bad good by blast
qed

theorem lockout_escalation_witness:
  "findById (u_id (public_columns bob)) st_users = Some (public_columns bob)
   \<and> failed_login_attempts (public_columns bob) = 4
   \<and> fst (verifyPassword demo_compare 1000 ''wrong'' (public_columns bob) st_users) = Inr False
   \<and> (\<exists>u'. findById (u_id (public_columns bob))
               (snd (snd (verifyPassword demo_compare 1000 ''wrong'' (public_columns bob) st_users)))
             = Some u'
         \<and> failed_login_attempts u' = 5
         \<and> account_locked_until u' = Some (1000 + minutes 30))
   \<and> findById (u_id (public_columns carol)) st_carol = Some (public_columns carol)
   \<and> failed_login_attempts (public_columns carol) = 7
   \<and> fst (verifyPassword demo_compare 1000 ''swordfish'' (public_columns carol) st_carol) = Inr True
   \<and> (\<exists>u'. findById (u_id (public_columns carol))
               (snd (snd (verifyPassword demo_compare 1000 ''swordfish'' (public_columns carol) st_carol)))
             = Some u'
         \<and> failed_login_attempts u' = 0 \<and> account_locked_until u' = None)"
proof -
  have b1: "findById (u_id (public_columns bob)) st_users = Some (public_columns bob)"
    by (simp add: findById_def st_users_def no_store_def alice_def bob_def public_columns_def)
  have b2: "\<not> isAccountLocked 1000 (public_columns bob)"
    "findByEmail (email (public_columns bob)) True st_users = Some bob"
    "password_hash bob = Some ''hash:hunter2''"
    "failed_login_attempts (public_columns bob) = 4"
    "account_locked_until (public_columns bob) = None"
    by (simp_all add: isAccountLocked_def findByEmail_def st_users_def no_store_def alice_def
          bob_def public_columns_def)
  have c1: "findById (u_id (public_columns carol)) st_carol = Some (public_columns carol)"
    by (simp add: findById_def st_carol_def no_store_def carol_def public_columns_def)
  have c2: "\<not> isAccountLocked 1000 (public_columns carol)"
    "findByEmail (email (public_columns carol)) True st_carol = Some carol"
    "password_hash carol = Some ''hash:swordfish''"
    "failed_login_attempts (public_columns carol) = 7"
    by (simp_all add: isAccountLocked_def findByEmail_def st_carol_def no_store_def carol_def
          public_columns_def)
  have w: "\<not> demo_compare ''wrong'' ''hash:hunter2''" "demo_compare ''swordfish'' ''hash:swordfish''"
    by (simp_all add: demo_compare_def)
  note B = lockout_escalation[where cmp=demo_compare and pw="''wrong''" and now=1000
      and r=bob and h="''hash:hunter2''", OF b1]
  note C = lockout_escalation[where cmp=demo_compare and pw="''swordfish''" and now=1000
      and r=carol and h="''hash:swordfish''", OF c1]
  have fb: "fst (verifyPassword demo_compare 1000 ''wrong'' (public_columns bob) st_users) = Inr False"
    using B b2 w by simp
  have fc: "fst (verifyPassword demo_compare 1000 ''swordfish'' (public_columns carol) st_carol) = Inr True"
    using C c2 w by simp
  show ?thesis
    using b1 b2(4,5) c1 c2(4) fb fc B C by simp
qed

section \<open>Authorization resolver\<close>

lemma nonempty_iff_member: "0 < length xs \<longleftrightarrow> (\<exists>x. x \<in> set xs)"
  by (cases xs) auto

lemma hasPermission_set:
  "hasPermission now n u st \<longleftrightarrow>
     (\<exists>p rp ur. p \<in> set (permissions st) \<and> rp \<in> set (role_permissions st)
        \<and> p_id p = rp_permission_id rp \<and> ur \<in> set (user_roles st)
        \<and> rp_role_id rp = ur_role_id ur \<and> ur_user_id ur = u \<and> p_name p = n
        \<and> effective now ur \<and> granted rp)"
  unfolding hasPermission_def Let_def nonempty_iff_member
  by (simp split: if_splits)

text \<open>
  Claim C5. \<open>hasPermission\<close> is true exactly when some assignment of the user that
  is active and unexpired (\<open>expires_at\<close> null or in the future) is to a role with a
  granted edge to a permission of that name; the table of roles, and with it
  \<open>parent_role_id\<close> and \<open>level\<close>, has no influence on the result.
\<close>

theorem hasPermission_iff_effective_grant:
  "(hasPermission now permissionName userId st \<longleftrightarrow>
      (\<exists>ur \<in> set (user_roles st). \<exists>rp \<in> set (role_permissions st). \<exists>p \<in> set (permissions st).
          ur_user_id ur = userId \<and> effective now ur
          \<and> rp_role_id rp = ur_role_id ur \<and> granted rp
          \<and> rp_permission_id rp = p_id p \<and> p_name p = permissionName))
   \<and> hasPermission now permissionName userId (st\<lparr>roles := rs\<rparr>)
       = hasPermission now permissionName userId st"
proof
  show "hasPermission now permissionName userId st \<longleftrightarrow>
      (\<exists>ur \<in> set (user_roles st). \<exists>rp \<in> set (role_permissions st). \<exists>p \<in> set (permissions st).
          ur_user_id ur = userId \<and> effective now ur
          \<and> rp_role_id rp = ur_role_id ur \<and> granted rp
          \<and> rp_permission_id rp = p_id p \<and> p_name p = permissionName)"
    unfolding hasPermission_set by (safe; force)
  show "hasPermission now permissionName userId (st\<lparr>roles := rs\<rparr>)
       = hasPermission now permissionName userId st"
    by (simp add: hasPermission_def)
qed

text \<open>Alice holds only the child role of Editor, and Editor's permission is not hers.\<close>

lemma child_role_does_not_inherit:
  "\<not> hasPermission 1000 ''posts.edit'' 1 st_rbac"
  by (simp add: hasPermission_def st_rbac_def st_users_def no_store_def editor_def admin_def
        junior_editor_def guest_def posts_edit_def effective_def)

lemma filter_map_upsert:
  fixes P :: "'a \<Rightarrow> bool"
  assumes "\<And>x. P (f x) = P x"
  shows "filter P (map f xs) = map f (filter P xs)"
  using assms by (induction xs) auto


lemma assignRole_upsert:
  assumes "u_id this \<in> u_id ` set (users st)" "roleId \<in> r_id ` set (roles st)"
    "case assignedBy of None \<Rightarrow> True | Some a \<Rightarrow> a \<in> u_id ` set (users st)"
    "length (filter (\<lambda>ur. ur_user_id ur = u_id this \<and> ur_role_id ur = roleId) (user_roles st)) \<le> 1"
  shows "\<exists>st' row. assignRole now roleId assignedBy expiresAt this st = (Inr (), st')
           \<and> filter (\<lambda>ur. ur_user_id ur = u_id this \<and> ur_role_id ur = roleId) (user_roles st') = [row]
           \<and> ur_is_active row \<and> ur_expires_at row = expiresAt \<and> assigned_by row = assignedBy
           \<and> users st' = users st \<and> roles st' = roles st"
proof (cases "\<exists>ur \<in> set (user_roles st). ur_user_id ur = u_id this \<and> ur_role_id ur = roleId")
  case False
  then have "filter (\<lambda>ur. ur_user_id ur = u_id this \<and> ur_role_id ur = roleId) (user_roles st) = []"
    by (auto simp: filter_empty_conv)
  then show ?thesis using assms(1-3) False
    by (auto simp: assignRole_def split: option.splits)
next
  case True
  let ?P = "\<lambda>ur. ur_user_id ur = u_id this \<and> ur_role_id ur = roleId"
  let ?f = "\<lambda>ur. if ur_user_id ur = u_id this \<and> ur_role_id ur = roleId
                        then ur\<lparr>ur_is_active := True, assigned_at := now,
                                assigned_by := assignedBy, ur_expires_at := expiresAt\<rparr>
                        else ur"
  have "filter ?P (user_roles st) \<noteq> []" using True by (auto simp: filter_empty_conv)
  then obtain r where r: "filter ?P (user_roles st) = [r]"
    using assms(4) by (cases "filter ?P (user_roles st)") auto
  have Pr: "?P r" using r by (rule filter_hd_sat)
  have "filter ?P (map ?f (user_roles st)) = map ?f (filter ?P (user_roles st))"
    by (rule filter_map_upsert) simp
  then have fr: "filter ?P (map ?f (user_roles st)) = [?f r]" using r by simp
  have ar: "assignRole now roleId assignedBy expiresAt this st
      = (Inr (), st\<lparr>user_roles := map ?f (user_roles st)\<rparr>)"
    using assms(1-3) True by (auto simp: assignRole_def split: option.splits)
  show ?thesis
    unfolding ar using fr Pr by simp
qed

text \<open>
  Claim C8. For a user, a role and an assigner that exist, on a table that holds at most
  one row for the pair (its unique constraint), two calls of \<open>assignRole\<close> both succeed
  and leave exactly one row for the pair: active, with the assigner and the expiry of the
  second call.
\<close>

theorem assignRole_twice_one_row:
  assumes "u_id this \<in> u_id ` set (users st)" "roleId \<in> r_id ` set (roles st)"
    "case assignedBy of None \<Rightarrow> True | Some a \<Rightarrow> a \<in> u_id ` set (users st)"
    "length (filter (\<lambda>ur. ur_user_id ur = u_id this \<and> ur_role_id ur = roleId) (user_roles st)) \<le> 1"
  shows "\<exists>st1 st2 row.
           assignRole t1 roleId assignedBy e1 this st = (Inr (), st1)
         \<and> assignRole t2 roleId assignedBy e2 this st1 = (Inr (), st2)
         \<and> filter (\<lambda>ur. ur_user_id ur = u_id this \<and> ur_role_id ur = roleId) (user_roles st2) = [row]
         \<and> ur_is_active row \<and> ur_expires_at row = e2 \<and> assigned_by row = assignedBy"
proof -
  let ?P = "\<lambda>ur. ur_user_id ur = u_id this \<and> ur_role_id ur = roleId"
  from assignRole_upsert[OF assms, of t1 e1]
  obtain st1 row1 where s1: "assignRole t1 roleId assignedBy e1 this st = (Inr (), st1)"
    "filter ?P (user_roles st1) = [row1]" "users st1 = users st" "roles st1 = roles st"
    by blast
  have fk: "u_id this \<in> u_id ` set (users st1)" "roleId \<in> r_id ` set (roles st1)"
    "case assignedBy of None \<Rightarrow> True | Some a \<Rightarrow> a \<in> u_id ` set (users st1)"
    using assms(1-3) s1(3,4) by (simp_all split: option.splits)
  have le: "length (filter ?P (user_roles st1)) \<le> 1" using s1(2) by simp
  from assignRole_upsert[OF fk le, of t2 e2] s1(1)
  show ?thesis by blast
qed


theorem assignRole_twice_one_row_witness:
  "u_id alice \<in> u_id ` set (users st_rbac) \<and> 1 \<in> r_id ` set (roles st_rbac)
   \<and> length (filter (\<lambda>ur. ur_user_id ur = u_id alice \<and> ur_role_id ur = 1) (user_roles st_rbac)) \<le> 1
   \<and> (\<exists>st1 st2 row.
           assignRole 10 1 (Some 2) (Some 500) alice st_rbac = (Inr (), st1)
         \<and> assignRole 20 1 (Some 2) (Some 900) alice st1 = (Inr (), st2)
         \<and> filter (\<lambda>ur. ur_user_id ur = u_id alice \<and> ur_role_id ur = 1) (user_roles st2) = [row]
         \<and> ur_is_active row \<and> ur_expires_at row = Some 900 \<and> assigned_by row = Some 2)"
proof -
  have a: "u_id alice \<in> u_id ` set (users st_rbac)"
    by (simp add: st_rbac_def st_users_def alice_def)
  have b: "1 \<in> r_id ` set (roles st_rbac)"
    by (simp add: st_rbac_def editor_def)
  have c: "case Some 2 of None \<Rightarrow> True | Some a \<Rightarrow> a \<in> u_id ` set (users st_rbac)"
    by (simp add: st_rbac_def st_users_def bob_def)
  have d: "length (filter (\<lambda>ur. ur_user_id ur = u_id alice \<and> ur_role_id ur = 1) (user_roles st_rbac)) \<le> 1"
    by (simp add: st_rbac_def alice_def)
  show ?thesis
    using a b d assignRole_twice_one_row[OF a b c d, of 10 "Some 500" 20 "Some 900"] by simp
qed

section \<open>Role mutation guards\<close>

text \<open>
  Claim C7 fails on the code. Bob's assignment of Editor expired at time 100 and its row
  is still active: at time 1000 Editor has no effective assignment, and \<open>Role.delete\<close>
  refuses all the same. \<open>Role.update\<close> renames the system role Admin.
\<close>

theorem role_guards_counterexample:
  "\<not> (\<exists>ur \<in> set (user_roles st_rbac). ur_role_id ur = r_id editor \<and> effective 1000 ur)
   \<and> fst (Role_delete editor st_rbac) = Inl CannotDeleteAssignedRole
   \<and> is_system_role admin
   \<and> fst (Role_update 1000 \<lparr>new_name = Some ''Root'', new_description = None, new_is_default = None\<rparr>
            (Some 1) admin st_rbac) = Inr (admin\<lparr>r_name := ''Root'', r_updated_by := Some 1, r_updated_at := 1000\<rparr>)"
  by (simp add: Role_delete_def Role_update_def st_rbac_def st_users_def no_store_def editor_def
        admin_def junior_editor_def guest_def effective_def apply_role_update_def alice_def bob_def)

text \<open>
  Claim C7 as amended. \<open>Role.delete\<close> refuses a system role; for any other role it
  refuses with 'Cannot delete role that is assigned to users' exactly when some row of
  \<open>user_roles\<close> for the role has \<open>is_active\<close> set, expired or not; with no such row
  and no role naming it as parent it succeeds and the role is gone. The guard of the
  update against system roles is the controller's: \<open>updateRole\<close> answers 403 for a
  system role before \<open>Role.update\<close> is called, as \<open>deleteRole\<close> does for the delete.
\<close>

theorem role_mutation_guards:
  "(is_system_role this \<longrightarrow> Role_delete this st = (Inl CannotDeleteSystemRole, st))
   \<and> (\<not> is_system_role this \<longrightarrow>
        (fst (Role_delete this st) = Inl CannotDeleteAssignedRole
           \<longleftrightarrow> (\<exists>ur \<in> set (user_roles st). ur_role_id ur = r_id this \<and> ur_is_active ur)))
   \<and> (\<not> is_system_role this
        \<and> \<not> (\<exists>ur \<in> set (user_roles st). ur_role_id ur = r_id this \<and> ur_is_active ur)
        \<and> \<not> (\<exists>c \<in> set (roles st). parent_role_id c = Some (r_id this)) \<longrightarrow>
        fst (Role_delete this st) = Inr True
        \<and> r_id this \<notin> r_id ` set (roles (snd (Role_delete this st))))
   \<and> (Role_findById roleId st = Some role \<and> is_system_role role \<longrightarrow>
        updateRole now roleId val reqUser st = (Inl CannotModifySystemRole, st)
        \<and> deleteRole roleId reqUser st = (Inl CannotDeleteSystemRole, st))"
  by (auto simp: Role_delete_def Let_def updateRole_def deleteRole_def filter_empty_conv)

theorem role_mutation_guards_witness:
  "is_system_role admin \<and> Role_delete admin st_rbac = (Inl CannotDeleteSystemRole, st_rbac)
   \<and> \<not> is_system_role editor
   \<and> fst (Role_delete editor st_rbac) = Inl CannotDeleteAssignedRole
   \<and> (\<exists>ur \<in> set (user_roles st_rbac). ur_role_id ur = r_id editor \<and> ur_is_active ur)
   \<and> \<not> is_system_role guest
   \<and> \<not> (\<exists>ur \<in> set (user_roles st_rbac). ur_role_id ur = r_id guest \<and> ur_is_active ur)
   \<and> \<not> (\<exists>c \<in> set (roles st_rbac). parent_role_id c = Some (r_id guest))
   \<and> fst (Role_delete guest st_rbac) = Inr True
   \<and> r_id guest \<notin> r_id ` set (roles (snd (Role_delete guest st_rbac)))
   \<and> Role_findById 2 st_rbac = Some admin
   \<and> updateRole 1000 2 \<lparr>new_name = Some ''Root'', new_description = None, new_is_default = None\<rparr>
        1 st_rbac = (Inl CannotModifySystemRole, st_rbac)
   \<and> deleteRole 2 1 st_rbac = (Inl CannotDeleteSystemRole, st_rbac)"
proof -
  have r: "Role_findById 2 st_rbac = Some admin"
    by (simp add: Role_findById_def st_rbac_def editor_def admin_def junior_editor_def guest_def)
  have s: "is_system_role admin" "\<not> is_system_role editor" "\<not> is_system_role guest"
    by (simp_all add: admin_def editor_def guest_def)
  have e: "\<exists>ur \<in> set (user_roles st_rbac). ur_role_id ur = r_id editor \<and> ur_is_active ur"
    by (simp add: st_rbac_def editor_def)
  have g: "\<not> (\<exists>ur \<in> set (user_roles st_rbac). ur_role_id ur = r_id guest \<and> ur_is_active ur)"
    "\<not> (\<exists>c \<in> set (roles st_rbac). parent_role_id c = Some (r_id guest))"
    by (simp_all add: st_rbac_def editor_def admin_def junior_editor_def guest_def)
  show ?thesis
    using r s e g
      role_mutation_guards[of admin st_rbac 2 admin 1000
        "\<lparr>new_name = Some ''Root'', new_description = None, new_is_default = None\<rparr>" 1]
      role_mutation_guards[of editor st_rbac 2 admin 1000
        "\<lparr>new_name = Some ''Root'', new_description = None, new_is_default = None\<rparr>" 1]
      role_mutation_guards[of guest st_rbac 2 admin 1000
        "\<lparr>new_name = Some ''Root'', new_description = None, new_is_default = None\<rparr>" 1]
    by simp
qed

section \<open>Session ledger and cache\<close>

lemma st_logged_in_eq:
  "st_logged_in = st_cache\<lparr>user_sessions_seq := 1,
     user_sessions := [\<lparr>s_id = 1, s_user_id = 1, session_token = ''tok-a'',
        refresh_token = ''sha256:refresh-a'', ip_address = ''10.0.0.1'', user_agent = ''browser'',
        s_created_at = 1000, last_accessed = 1000, s_expires_at = 86401000, s_is_active = True,
        is_remembered = False, force_logout = False\<rparr>],
     redis := Some \<lparr>up = True,
        kv = [''session:tok-a'' \<mapsto> (Compact 1 1 True 86401000, 86401000)]\<rparr>\<rparr>"
  by (simp add: st_logged_in_def createSession_def st_cache_def st_users_def no_store_def
        alice_login_def alice_def bob_def demo_sha256_def redis_setex_def sessionKey_def Let_def)

text \<open>
  Claim C1, at the state where it fails. Alice's session is active and unexpired in the
  ledger and its \<open>force_logout\<close> is set; the cache still holds the compact object that
  \<open>createSession\<close> wrote. \<open>findSessionByToken\<close> returns that object: the cache
  branch reads \<open>expires_at\<close> and \<open>is_active\<close> of the cached copy and nothing of the
  ledger, and the middleware's own check finds no \<open>force_logout\<close> on the object. With
  the cache empty, or disabled, the same session is refused by the query.
\<close>

theorem cache_hit_ignores_force_logout:
  "map (\<lambda>s. (session_token s, s_is_active s, force_logout s, 2000 < s_expires_at s))
       (user_sessions st_forced_out) = [(''tok-a'', True, True, True)]
   \<and> fst (findSessionByToken 2000 ''tok-a'' st_forced_out) = Inr (Some (Compact 1 1 True 86401000))
   \<and> session_accepted 2000 ''tok-a'' st_forced_out
   \<and> fst (findSessionByToken 2000 ''tok-a''
            (st_forced_out\<lparr>redis := Some \<lparr>up = True, kv = Map.empty\<rparr>\<rparr>)) = Inr None
   \<and> fst (findSessionByToken 2000 ''tok-a'' (st_forced_out\<lparr>redis := None\<rparr>)) = Inr None"
  by (simp add: st_forced_out_def st_logged_in_eq findSessionByToken_def fall_back_to_database_def
        ledger_lookup_def redis_get_def sessionKey_def st_cache_def session_accepted_def)

text \<open>
  Claim C6 fails on the code: with the cache connection down the row is inserted and
  \<open>createSession\<close> ends in the cache error.
\<close>

theorem createSession_cache_failure_counterexample:
  "fst (createSession demo_sha256 1000 alice_login st_cache_down) = Inl RedisError
   \<and> map session_token (user_sessions (snd (createSession demo_sha256 1000 alice_login st_cache_down)))
       = [''tok-a'']"
  by (simp add: createSession_def st_cache_down_def st_users_def no_store_def
        alice_login_def alice_def bob_def demo_sha256_def redis_setex_def sessionKey_def Let_def)

text \<open>
  Claim C6 as amended. When the \<open>INSERT\<close> is accepted (the user exists, both tokens are
  new), the ledger row is created in every case, with the expiry of 30 days or 1 day;
  the session is returned when the cache is disabled or answers, and when the cache
  write fails the call fails with the cache's error, the row staying in the ledger.
\<close>

theorem createSession_cache_failure:
  assumes "sd_user_id sd \<in> u_id ` set (users st)"
    "access_token sd \<notin> session_token ` set (user_sessions st)"
    "digest (sd_refresh_token sd) \<notin> refresh_token ` set (user_sessions st)"
  shows "\<exists>row. user_sessions (snd (createSession digest now sd st)) = user_sessions st @ [row]
           \<and> session_token row = access_token sd \<and> s_user_id row = sd_user_id sd
           \<and> s_is_active row
           \<and> s_expires_at row = now + hours (if sd_is_remembered sd then 24 * 30 else 24)
           \<and> fst (createSession digest now sd st)
               = (if redis_available st then Inr row else Inl RedisError)"
proof (cases "redis st")
  case None
  then show ?thesis using assms
    by (simp add: createSession_def Let_def redis_available_def hours_def)
next
  case (Some rc)
  show ?thesis
  proof (cases "up rc")
    case True
    then show ?thesis using assms Some
      by (simp add: createSession_def Let_def redis_available_def redis_setex_def hours_def)
  next
    case False
    then show ?thesis using assms Some
      by (simp add: createSession_def Let_def redis_available_def redis_setex_def hours_def)
  qed
qed

theorem createSession_cache_failure_witness:
  "sd_user_id alice_login \<in> u_id ` set (users st_cache_down)
   \<and> access_token alice_login \<notin> session_token ` set (user_sessions st_cache_down)
   \<and> demo_sha256 (sd_refresh_token alice_login) \<notin> refresh_token ` set (user_sessions st_cache_down)
   \<and> \<not> redis_available st_cache_down
   \<and> fst (createSession demo_sha256 1000 alice_login st_cache_down) = Inl RedisError
   \<and> (\<exists>row. user_sessions (snd (createSession demo_sha256 1000 alice_login st_cache_down))
                = user_sessions st_cache_down @ [row]
              \<and> session_token row = access_token alice_login \<and> s_is_active row)"
proof -
  have a: "sd_user_id alice_login \<in> u_id ` set (users st_cache_down)"
    by (simp add: alice_login_def st_cache_down_def st_users_def alice_def)
  have b: "access_token alice_login \<notin> session_token ` set (user_sessions st_cache_down)"
    "demo_sha256 (sd_refresh_token alice_login) \<notin> refresh_token ` set (user_sessions st_cache_down)"
    by (simp_all add: st_cache_down_def st_users_def no_store_def)
  have c: "\<not> redis_available st_cache_down"
    by (simp add: redis_available_def st_cache_down_def)
  show ?thesis
    using a b c createSession_cache_failure[where digest=demo_sha256 and now=1000 and sd=alice_login
        and st=st_cache_down, OF a b] by auto
qed

section \<open>Password change\<close>

lemma changePassword_result:
  assumes "findById userId st = Some user"
    "findByEmail (email user) True st = Some userWithPassword"
    "password_hash userWithPassword = Some h" "cmp currentPassword h"
  shows "changePassword cmp bhash now userId currentPassword newPassword st =
    (Inl TypeError,
     logEvent (Some userId) ''password_change_failed'' False
       (st\<lparr>bcrypt_compares := bcrypt_compares st + 1,
           users := update_users now userId
                      (\<lambda>u. u\<lparr>password_hash := Some (bhash newPassword),
                             last_password_change := Some now\<rparr>) (users st)\<rparr>))"
  using assms
  by (simp add: changePassword_def findSessionByUserId_def Let_def)

lemma findById_member:
  assumes "findById i st = Some u"
  shows "\<exists>r \<in> set (users st). u_id r = i"
proof -
  obtain r rs where f: "filter (\<lambda>u. u_id u = i) (users st) = r # rs"
    using assms by (cases "filter (\<lambda>u. u_id u = i) (users st)") (simp_all add: findById_def)
  have "r \<in> set (filter (\<lambda>u. u_id u = i) (users st))" by (simp add: f)
  then show ?thesis by auto
qed

lemma update_users_ids:
  assumes "\<And>u. u_id (f u) = u_id u"
  shows "map u_id (update_users now i f us) = map u_id us"
  using assms
  by (induction us) (simp_all add: update_users_def update_updated_at_column_def
        check_account_lockout_fields)

lemma update_users_row:
  assumes "u' \<in> set (update_users now i f us)" "u_id u' = i" "\<And>u. u_id (f u) = u_id u"
  shows "\<exists>u \<in> set us. u_id u = i
           \<and> u' = update_updated_at_column now (check_account_lockout now (f u))"
  using assms
  by (induction us)
     (auto simp: update_users_def update_updated_at_column_def check_account_lockout_fields
        split: if_splits)

text \<open>
  Claim C9. For a user of the store whose current password matches, \<open>changePassword\<close>
  ends in the \<open>TypeError\<close> of the missing \<open>findSessionByUserId\<close>: the caller gets the
  error, the sessions and the cache are as before, and every row of the user already
  carries the hash of the new password.
\<close>

theorem changePassword_persists_then_throws:
  assumes "findById userId st = Some user"
    "findByEmail (email user) True st = Some userWithPassword"
    "password_hash userWithPassword = Some h" "cmp currentPassword h"
  shows "fst (changePassword cmp bhash now userId currentPassword newPassword st) = Inl TypeError
    \<and> user_sessions (snd (changePassword cmp bhash now userId currentPassword newPassword st))
        = user_sessions st
    \<and> redis (snd (changePassword cmp bhash now userId currentPassword newPassword st)) = redis st
    \<and> (\<exists>u' \<in> set (users (snd (changePassword cmp bhash now userId currentPassword newPassword st))).
          u_id u' = userId)
    \<and> (\<forall>u' \<in> set (users (snd (changePassword cmp bhash now userId currentPassword newPassword st))).
          u_id u' = userId \<longrightarrow> password_hash u' = Some (bhash newPassword))"
proof -
  let ?f = "\<lambda>u. u\<lparr>password_hash := Some (bhash newPassword), last_password_change := Some now\<rparr>"
  let ?us = "update_users now userId ?f (users st)"
  have res: "changePassword cmp bhash now userId currentPassword newPassword st =
    (Inl TypeError,
     logEvent (Some userId) ''password_change_failed'' False
       (st\<lparr>bcrypt_compares := bcrypt_compares st + 1, users := ?us\<rparr>))"
    using assms by (rule changePassword_result)
  from findById_member[OF assms(1)] obtain r where r: "r \<in> set (users st)" "u_id r = userId"
    by blast
  have ids: "map u_id ?us = map u_id (users st)"
    by (rule update_users_ids) simp
  have "userId \<in> set (map u_id ?us)" using r ids by force
  then have ex: "\<exists>u' \<in> set ?us. u_id u' = userId" by auto
  have all: "\<forall>u' \<in> set ?us. u_id u' = userId \<longrightarrow> password_hash u' = Some (bhash newPassword)"
  proof (intro ballI impI)
    fix u' assume "u' \<in> set ?us" "u_id u' = userId"
    then obtain u where "u' = update_updated_at_column now (check_account_lockout now (?f u))"
      using update_users_row[of u' now userId ?f "users st"] by auto
    then show "password_hash u' = Some (bhash newPassword)"
      by (simp add: update_updated_at_column_def check_account_lockout_fields)
  qed
  show ?thesis
    unfolding res using ex all by simp
qed

theorem changePassword_persists_then_throws_witness:
  "findById 1 st_logged_in = Some (public_columns alice)
   \<and> findByEmail (email (public_columns alice)) True st_logged_in = Some alice
   \<and> password_hash alice = Some ''hash:correct'' \<and> demo_compare ''correct'' ''hash:correct''
   \<and> fst (changePassword demo_compare demo_hash 2000 1 ''correct'' ''new'' st_logged_in) = Inl TypeError
   \<and> user_sessions (snd (changePassword demo_compare demo_hash 2000 1 ''correct'' ''new'' st_logged_in))
        = user_sessions st_logged_in
   \<and> map s_is_active (user_sessions st_logged_in) = [True]
   \<and> findByEmail ''alice@example.com'' True
        (snd (changePassword demo_compare demo_hash 2000 1 ''correct'' ''new'' st_logged_in))
       = Some (alice\<lparr>password_hash := Some ''hash:new'', last_password_change := Some 2000,
                     u_updated_at := 2000\<rparr>)"
proof -
  have a: "findById 1 st_logged_in = Some (public_columns alice)"
    by (simp add: findById_def st_logged_in_eq st_cache_def st_users_def alice_def bob_def)
  have b: "findByEmail (email (public_columns alice)) True st_logged_in = Some alice"
    by (simp add: findByEmail_def st_logged_in_eq st_cache_def st_users_def alice_def bob_def)
  have c: "password_hash alice = Some ''hash:correct''" by (simp add: alice_def)
  have d: "demo_compare ''correct'' ''hash:correct''" by (simp add: demo_compare_def)
  have e: "findByEmail ''alice@example.com'' True
        (snd (changePassword demo_compare demo_hash 2000 1 ''correct'' ''new'' st_logged_in))
       = Some (alice\<lparr>password_hash := Some ''hash:new'', last_password_change := Some 2000,
                     u_updated_at := 2000\<rparr>)"
    unfolding changePassword_result[where cmp=demo_compare and currentPassword="''correct''"
        and h="''hash:correct''", OF a b c d]
    by (simp add: findByEmail_def st_logged_in_eq st_cache_def st_users_def
          update_users_def update_updated_at_column_def check_account_lockout_def Let_def
          alice_def bob_def demo_hash_def)
  have f: "map s_is_active (user_sessions st_logged_in) = [True]"
    by (simp add: st_logged_in_eq)
  show ?thesis
    using a b c d e f
      changePassword_persists_then_throws[where cmp=demo_compare
        and currentPassword="''correct''" and h="''hash:correct''" and bhash=demo_hash
        and now=2000 and newPassword="''new''", OF a b c d]
    by simp
qed

section \<open>The ledger path of the session lookup\<close>



lemma distinct_map_eq:
  assumes "distinct (map g xs)" "x \<in> set xs" "y \<in> set xs" "g x = g y"
  shows "x = y"
  using assms by (meson distinct_map inj_onD)

lemma filter_key_unique:
  assumes "distinct (map g xs)" "s \<in> set xs"
  shows "filter (\<lambda>x. g x = g s \<and> Q x) xs = (if Q s then [s] else [])"
  using assms
proof (induction xs)
  case Nil
  then show ?case by simp
next
  case (Cons x xs)
  show ?case
  proof (cases "x = s")
    case True
    have "g s \<notin> g ` set xs" using Cons.prems(1) True by simp
    then have "filter (\<lambda>x. g x = g s \<and> Q x) xs = []"
      unfolding filter_empty_conv by (metis imageI)
    then show ?thesis using True by simp
  next
    case False
    then have "s \<in> set xs" using Cons.prems(2) by simp
    moreover have "g x \<noteq> g s" using Cons.prems(1) calculation by force
    ultimately show ?thesis using Cons by simp
  qed
qed

text \<open>
  What holds of claim C1: with session tokens unique in the ledger, and the cache disabled
  or holding no entry under the token, \<open>findSessionByToken\<close> returns the row exactly
  when it is active, not force-logged-out and unexpired, and null otherwise; except
  that, with the cache enabled, a valid session with less than a second left makes the
  repopulating \<open>SETEX\<close> fail (a time to live of 0 seconds) and the lookup with it.
\<close>

lemma findSessionByToken_ledger_path:
  assumes "distinct (map session_token (user_sessions st))" "s \<in> set (user_sessions st)"
    "case redis st of None \<Rightarrow> True
     | Some rc \<Rightarrow> up rc \<and> kv rc (sessionKey (session_token s)) = None"
  shows "fst (findSessionByToken now (session_token s) st) =
           (if s_is_active s \<and> \<not> force_logout s \<and> s_expires_at s > now
            then if redis st \<noteq> None \<and> (s_expires_at s - now) div 1000 \<le> 0
                 then Inl RedisError else Inr (Some (Row s))
            else Inr None)"
proof -
  have l: "ledger_lookup now (session_token s) st =
     (if s_is_active s \<and> s_expires_at s > now \<and> \<not> force_logout s then [s] else [])"
    unfolding ledger_lookup_def by (rule filter_key_unique[OF assms(1,2)])
  show ?thesis
  proof (cases "redis st")
    case None
    then show ?thesis using l
      by (auto simp: findSessionByToken_def fall_back_to_database_def)
  next
    case (Some rc)
    then show ?thesis using l assms(3)
      by (auto simp: findSessionByToken_def fall_back_to_database_def redis_get_def
            redis_setex_def Let_def)
  qed
qed

section \<open>The cache holds no entry for an invalidated session\<close>

text \<open>
  The condition \<open>no_stale_entries\<close> holds while no session exists, and every operation
  of \<open>TokenService\<close> that writes the cache or invalidates sessions keeps it whenever
  the operation returns normally. An invalidation that fails at its cache delete has
  already updated the ledger and does not keep it.
\<close>

lemma no_stale_entries_initially:
  "user_sessions st = [] \<Longrightarrow> no_stale_entries st"
  by (simp add: no_stale_entries_def split: option.splits)

lemma sessionKey_inject [simp]: "sessionKey a = sessionKey b \<longleftrightarrow> a = b"
  by (simp add: sessionKey_def)

lemma createSession_success:
  assumes "createSession digest now sd st = (Inr row, st')"
  shows "access_token sd \<notin> session_token ` set (user_sessions st)
       \<and> user_sessions st' = user_sessions st @ [row] \<and> s_is_active row
       \<and> session_token row = access_token sd
       \<and> (case redis st of
             None \<Rightarrow> redis st' = None
           | Some rc \<Rightarrow> redis st' = Some (rc\<lparr>kv := (kv rc)(sessionKey (access_token sd) \<mapsto>
                 (Compact (s_id row) (s_user_id row) True (s_expires_at row),
                  now + (if sd_is_remembered sd then 24 * 30 else 24) * 3600 * 1000))\<rparr>))"
proof (cases "redis st")
  case None
  then show ?thesis using assms
    by (auto simp: createSession_def Let_def split: if_splits)
next
  case (Some rc)
  then show ?thesis using assms
    by (cases "up rc") (auto simp: createSession_def Let_def redis_setex_def split: if_splits)
qed

lemma no_stale_entries_createSession:
  assumes "no_stale_entries st" "createSession digest now sd st = (Inr row, st')"
  shows "no_stale_entries st'"
proof (cases "redis st")
  case None
  then show ?thesis using createSession_success[OF assms(2)]
    by (simp add: no_stale_entries_def)
next
  case (Some rc)
  define v where "v = (Compact (s_id row) (s_user_id row) True (s_expires_at row),
                  now + (if sd_is_remembered sd then 24 * 30 else 24) * 3600 * 1000)"
  from createSession_success[OF assms(2)] Some
  have fresh: "access_token sd \<notin> session_token ` set (user_sessions st)"
    and rows: "user_sessions st' = user_sessions st @ [row]" and act: "s_is_active row"
    and r: "redis st' = Some (rc\<lparr>kv := (kv rc)(sessionKey (access_token sd) \<mapsto> v)\<rparr>)"
    by (simp_all add: v_def)
  have old: "s_is_active s \<or> kv rc (sessionKey (session_token s)) = None"
    if "s \<in> set (user_sessions st)" for s
    using assms(1) Some that by (simp add: no_stale_entries_def list_all_iff)
  have "s_is_active s \<or> ((kv rc)(sessionKey (access_token sd) \<mapsto> v))
            (sessionKey (session_token s)) = None"
    if "s \<in> set (user_sessions st')" for s
  proof (cases "s = row")
    case True
    then show ?thesis using act by simp
  next
    case False
    then have m: "s \<in> set (user_sessions st)" using that rows by simp
    then have "session_token s \<noteq> access_token sd" using fresh by force
    then show ?thesis using old[OF m] by simp
  qed
  then show ?thesis using r by (simp add: no_stale_entries_def list_all_iff)
qed

lemma no_stale_entries_findSessionByToken:
  assumes "no_stale_entries st" "distinct (map session_token (user_sessions st))"
    "findSessionByToken now token st = (Inr r, st')"
  shows "no_stale_entries st'"
proof -
  have fb: "no_stale_entries st'" if f: "fall_back_to_database now token st = (Inr r, st')"
  proof (cases "ledger_lookup now token st")
    case Nil
    then show ?thesis using f assms(1) by (simp add: fall_back_to_database_def)
  next
    case (Cons x xs)
    have Px: "session_token x = token \<and> s_is_active x \<and> s_expires_at x > now \<and> \<not> force_logout x"
      using Cons unfolding ledger_lookup_def by (rule filter_hd_sat)
    have "x \<in> set (ledger_lookup now token st)" using Cons by simp
    then have xin: "x \<in> set (user_sessions st)" by (simp add: ledger_lookup_def)
    show ?thesis
    proof (cases "redis st")
      case None
      then show ?thesis using f assms(1) Cons by (simp add: fall_back_to_database_def)
    next
      case (Some rc)
      show ?thesis
      proof (cases "up rc")
        case False
        then show ?thesis using f Some Cons
          by (simp add: fall_back_to_database_def redis_setex_def Let_def)
      next
        case True
        have st': "st' = st\<lparr>redis := Some (rc\<lparr>kv := (kv rc)(sessionKey token \<mapsto>
                       (Row x, now + (s_expires_at x - now) div 1000 * 1000))\<rparr>)\<rparr>"
          using f Some Cons True
          by (auto simp: fall_back_to_database_def redis_setex_def Let_def split: if_splits)
        have "s_is_active s \<or> ((kv rc)(sessionKey token \<mapsto>
                       (Row x, now + (s_expires_at x - now) div 1000 * 1000)))
                 (sessionKey (session_token s)) = None"
          if s: "s \<in> set (user_sessions st)" for s
        proof (cases "session_token s = token")
          case True
          then have "s = x" using distinct_map_eq[OF assms(2) s xin] Px by simp
          then show ?thesis using Px by simp
        next
          case False
          then show ?thesis using assms(1) Some s
            by (simp add: no_stale_entries_def list_all_iff)
        qed
        then show ?thesis unfolding st' by (simp add: no_stale_entries_def list_all_iff)
      qed
    qed
  qed
  show ?thesis
  proof (cases "redis st")
    case None
    then show ?thesis using assms(3) fb by (simp add: findSessionByToken_def)
  next
    case (Some rc)
    then show ?thesis using assms(1,3) fb
      by (auto simp: findSessionByToken_def split: sum.splits option.splits if_splits)
  qed
qed

lemma redis_del_all_result:
  assumes "redis_del_all ks rc = Inr rc'"
  shows "(\<forall>k. kv rc' k = None \<or> kv rc' k = kv rc k) \<and> (\<forall>k \<in> set ks. kv rc' k = None)"
  using assms
proof (induction ks arbitrary: rc)
  case Nil
  then show ?case by simp
next
  case (Cons k ks)
  from Cons.prems obtain rc1 where 1: "redis_del k rc = Inr rc1" and 2: "redis_del_all ks rc1 = Inr rc'"
    by (auto split: sum.splits)
  have k1: "kv rc1 = (kv rc)(k := None)" using 1 by (auto simp: redis_del_def split: if_splits)
  from Cons.IH[OF 2] have ih: "\<forall>j. kv rc' j = None \<or> kv rc' j = kv rc1 j"
    "\<forall>j \<in> set ks. kv rc' j = None"
    by auto
  have "kv rc' k = None" using ih(1) k1 by (metis fun_upd_same)
  moreover have "\<forall>j. kv rc' j = None \<or> kv rc' j = kv rc j"
    using ih(1) k1 by (metis fun_upd_apply)
  ultimately show ?case using ih(2) by simp
qed

lemma stale_after_deactivate:
  assumes old: "\<forall>s \<in> set rows. s_is_active s \<or> kv rc (sessionKey (session_token s)) = None"
    and d: "redis_del_all (map (\<lambda>row. sessionKey (session_token row)) (filter Q rows)) rc = Inr rc'"
    and Q: "\<And>s. Q s \<longleftrightarrow> P s \<and> s_is_active s"
    and x: "x \<in> set (map (\<lambda>s. if P s then s\<lparr>s_is_active := False\<rparr> else s) rows)"
  shows "s_is_active x \<or> kv rc' (sessionKey (session_token x)) = None"
proof -
  note res = redis_del_all_result[OF d]
  from x obtain s where s: "s \<in> set rows"
      "x = (if P s then s\<lparr>s_is_active := False\<rparr> else s)"
    by auto
  have tok: "session_token x = session_token s" using s(2) by simp
  show ?thesis
  proof (cases "s_is_active s")
    case False
    then have "kv rc (sessionKey (session_token s)) = None" using old s(1) by blast
    then have "kv rc' (sessionKey (session_token s)) = None" using res by metis
    then show ?thesis using tok by simp
  next
    case True
    show ?thesis
    proof (cases "P s")
      case False
      then show ?thesis using True s(2) by simp
    next
      case p: True
      have "s \<in> set (filter Q rows)" using s(1) True p Q by simp
      then have "sessionKey (session_token s) \<in>
                   set (map (\<lambda>row. sessionKey (session_token row)) (filter Q rows))"
        unfolding set_map by (rule imageI)
      then have "kv rc' (sessionKey (session_token s)) = None" using res by blast
      then show ?thesis using tok by simp
    qed
  qed
qed

lemma no_stale_entries_invalidateAllUserSessions:
  assumes "no_stale_entries st" "invalidateAllUserSessions uid st = (Inr r, st')"
  shows "no_stale_entries st'"
proof (cases "redis st")
  case None
  then show ?thesis using assms(2)
    by (auto simp: invalidateAllUserSessions_def Let_def no_stale_entries_def)
next
  case (Some rc)
  let ?Q = "\<lambda>s. s_user_id s = uid \<and> s_is_active s"
  let ?rows = "map (\<lambda>s. if s_user_id s = uid then s\<lparr>s_is_active := False\<rparr> else s)
                 (user_sessions st)"
  from assms(2) Some obtain rc' where
    d: "redis_del_all (map (\<lambda>row. sessionKey (session_token row)) (filter ?Q (user_sessions st))) rc
          = Inr rc'"
    and st': "user_sessions st' = ?rows" "redis st' = Some rc'"
    by (auto simp: invalidateAllUserSessions_def Let_def split: sum.splits)
  have old: "\<forall>s \<in> set (user_sessions st). s_is_active s \<or> kv rc (sessionKey (session_token s)) = None"
    using assms(1) Some by (simp add: no_stale_entries_def list_all_iff)
  have "s_is_active x \<or> kv rc' (sessionKey (session_token x)) = None" if "x \<in> set ?rows" for x
    using stale_after_deactivate[OF old d _ that] by simp
  then show ?thesis using st' by (simp add: no_stale_entries_def list_all_iff)
qed

lemma no_stale_entries_invalidateAllUserSessionsExcept:
  assumes "no_stale_entries st" "invalidateAllUserSessionsExcept uid ex st = (Inr r, st')"
  shows "no_stale_entries st'"
proof (cases "redis st")
  case None
  then show ?thesis using assms(2)
    by (auto simp: invalidateAllUserSessionsExcept_def Let_def no_stale_entries_def)
next
  case (Some rc)
  let ?differs = "\<lambda>s. case ex of None \<Rightarrow> False | Some i \<Rightarrow> s_id s \<noteq> i"
  let ?P = "\<lambda>s. s_user_id s = uid \<and> ?differs s"
  let ?Q = "\<lambda>s. s_user_id s = uid \<and> s_is_active s \<and> ?differs s"
  let ?rows = "map (\<lambda>s. if ?P s then s\<lparr>s_is_active := False\<rparr> else s) (user_sessions st)"
  from assms(2) Some obtain rc' where
    d: "redis_del_all (map (\<lambda>row. sessionKey (session_token row)) (filter ?Q (user_sessions st))) rc
          = Inr rc'"
    and st': "user_sessions st' = ?rows" "redis st' = Some rc'"
    by (auto simp: invalidateAllUserSessionsExcept_def Let_def split: sum.splits)
  have old: "\<forall>s \<in> set (user_sessions st). s_is_active s \<or> kv rc (sessionKey (session_token s)) = None"
    using assms(1) Some by (simp add: no_stale_entries_def list_all_iff)
  have Q: "?Q s \<longleftrightarrow> ?P s \<and> s_is_active s" for s by auto
  have "s_is_active x \<or> kv rc' (sessionKey (session_token x)) = None" if "x \<in> set ?rows" for x
    using stale_after_deactivate[where P="?P" and Q="?Q", OF old d Q that] .
  then show ?thesis using st' by (simp add: no_stale_entries_def list_all_iff)
qed

lemma no_stale_entries_invalidateSession:
  assumes "no_stale_entries st" "distinct (map s_id (user_sessions st))"
    "invalidateSession sessionId st = (Inr r, st')"
  shows "no_stale_entries st'"
proof (cases "redis st")
  case None
  then show ?thesis using assms(3)
    by (auto simp: invalidateSession_def Let_def no_stale_entries_def split: list.splits)
next
  case (Some rc)
  let ?f = "\<lambda>s. if s_id s = sessionId then s\<lparr>s_is_active := False\<rparr> else s"
  have old: "s_is_active s \<or> kv rc (sessionKey (session_token s)) = None"
    if "s \<in> set (user_sessions st)" for s
    using assms(1) Some that by (simp add: no_stale_entries_def list_all_iff)
  show ?thesis
  proof (cases "filter (\<lambda>s. s_id s = sessionId) (user_sessions st)")
    case Nil
    then have "\<forall>s \<in> set (user_sessions st). s_id s \<noteq> sessionId"
      by (simp add: filter_empty_conv)
    then have "map ?f (user_sessions st) = user_sessions st"
      by (simp add: map_idI)
    then show ?thesis using assms(1,3) Some Nil
      by (simp add: invalidateSession_def Let_def no_stale_entries_def)
  next
    case (Cons row rest)
    have rid: "s_id row = sessionId" using Cons by (rule filter_hd_sat)
    have "row \<in> set (filter (\<lambda>s. s_id s = sessionId) (user_sessions st))" using Cons by simp
    then have rin: "row \<in> set (user_sessions st)" by simp
    from assms(3) Some Cons obtain rc' where
      d: "redis_del (sessionKey (session_token row)) rc = Inr rc'"
      and st': "user_sessions st' = map ?f (user_sessions st)" "redis st' = Some rc'"
      by (auto simp: invalidateSession_def Let_def split: sum.splits)
    have kv': "kv rc' = (kv rc)(sessionKey (session_token row) := None)"
      using d by (auto simp: redis_del_def split: if_splits)
    have "s_is_active x \<or> kv rc' (sessionKey (session_token x)) = None"
      if "x \<in> set (map ?f (user_sessions st))" for x
    proof -
      from that obtain s where s: "s \<in> set (user_sessions st)" "x = ?f s" by auto
      show ?thesis
      proof (cases "s_id s = sessionId")
        case True
        then have "s = row" using distinct_map_eq[OF assms(2) s(1) rin] rid by simp
        then show ?thesis using s(2) kv' by simp
      next
        case False
        then show ?thesis using old[OF s(1)] s(2) kv' by auto
      qed
    qed
    then show ?thesis using st' by (simp add: no_stale_entries_def list_all_iff)
  qed
qed

section \<open>Password reset\<close>







lemma check_account_lockout_token [simp]:
  "password_reset_token (check_account_lockout now u) = password_reset_token u"
  by (simp add: check_account_lockout_def Let_def)












end
